theory Spec2Isabelle
  imports Main "HOL-Library.Word"
begin

section \<open>Image upload service: data model\<close>

text \<open>
  The Go service \<^verbatim>\<open>internal/service\<close> decodes an uploaded image, stores the
  original in an S3 bucket and then stores one resized variant per requested size.
  Go strings are byte sequences and so are HOL strings; a \<^verbatim>\<open>[]byte\<close> is a list
  of 8-bit words. Go's \<^verbatim>\<open>int\<close> is modelled by \<^typ>\<open>int\<close>: the service never
  does arithmetic on its integers, it only prints, scans and converts them.
\<close>

type_synonym bytes = "8 word list"

text \<open>\<^verbatim>\<open>internal/models/models.go\<close>\<close>

record CompressSpec =
  Width :: int
  Height :: int

record ImageResult =
  Width :: int
  Height :: int
  URL :: string

text \<open>
  \<^verbatim>\<open>CompressedImages\<close> is a Go slice. A slice is either \<^verbatim>\<open>nil\<close> (which
  the JSON encoder prints as \<^verbatim>\<open>null\<close>) or a sequence, so the field is an optional
  list: \<open>None\<close> is the nil slice and \<open>Some []\<close> the empty, non-nil one.
\<close>

record UploadResponse =
  OriginalImage :: ImageResult
  CompressedImages :: "ImageResult list option"
  Message :: string

fun append_slice :: "'a list option \<Rightarrow> 'a \<Rightarrow> 'a list option" where
  "append_slice None x = Some [x]"
| "append_slice (Some xs) x = Some (xs @ [x])"

text \<open>The fields of \<^verbatim>\<open>config.S3Config\<close> that the repository reads.\<close>

record S3Config =
  Region :: string
  BucketName :: string
  AccessKeyID :: string
  SecretAccessKey :: string
  Endpoint :: string

text \<open>
  The errors the service returns. The first two wrap the message of the library
  error they come from (\<^verbatim>\<open>fmt.Errorf("...: %w", err)\<close>).
\<close>

datatype service_error =
  FailedToDecodeImage string
| FailedToUploadOriginalImage string
| ImageNotFound

section \<open>Standard library functions used by the service\<close>

subsection \<open>\<^verbatim>\<open>strconv\<close> and \<^verbatim>\<open>fmt\<close>: printing an integer with \<^verbatim>\<open>%d\<close>\<close>

definition digit_char :: "int \<Rightarrow> char" where
  "digit_char d = ''0123456789'' ! nat d"

text \<open>The decimal digits of a number that is not negative, most significant first.\<close>

function format_uint :: "int \<Rightarrow> string" where
  "format_uint n =
     (if n < 10 then [digit_char n] else format_uint (n div 10) @ [digit_char (n mod 10)])"
  by pat_completeness auto
termination
  by (relation "measure nat") auto

declare format_uint.simps [simp del]

definition Sprintf_d :: "int \<Rightarrow> string" where
  "Sprintf_d i = (if i < 0 then CHR ''-'' # format_uint (- i) else format_uint i)"

subsection \<open>\<^verbatim>\<open>path/filepath\<close> and \<^verbatim>\<open>strings\<close>\<close>

text \<open>
  \<^verbatim>\<open>filepath.Ext\<close> walks back from the end of the path to the last dot, and stops
  at a path separator: the extension is the suffix that starts at the final dot of
  the final path element, or the empty string. \<open>Ext_scan\<close> is that loop, on the
  reversed path, with the characters passed so far.
\<close>

fun Ext_scan :: "string \<Rightarrow> string \<Rightarrow> string" where
  "Ext_scan [] seen = []"
| "Ext_scan (c # front) seen =
     (if c = CHR ''/'' then []
      else if c = CHR ''.'' then c # seen
      else Ext_scan front (c # seen))"

definition Ext :: "string \<Rightarrow> string" where
  "Ext path = Ext_scan (rev path) []"

definition HasSuffix :: "string \<Rightarrow> string \<Rightarrow> bool" where
  "HasSuffix s suffix =
     (length suffix \<le> length s \<and> drop (length s - length suffix) s = suffix)"

definition TrimSuffix :: "string \<Rightarrow> string \<Rightarrow> string" where
  "TrimSuffix s suffix =
     (if HasSuffix s suffix then take (length s - length suffix) s else s)"

text \<open>
  \<^verbatim>\<open>strings.ToLower\<close> lower-cases by Unicode code point, so the service functions
  take it as a parameter. On ASCII input it is \<open>ascii_ToLower\<close>, which maps
  \<^verbatim>\<open>A\<close>..\<^verbatim>\<open>Z\<close> to \<^verbatim>\<open>a\<close>..\<^verbatim>\<open>z\<close> and keeps every other byte.
\<close>

definition ascii_lower_char :: "char \<Rightarrow> char" where
  "ascii_lower_char c =
     (let n = (of_char c :: nat) in if 65 \<le> n \<and> n \<le> 90 then char_of (n + 32) else c)"

definition ascii_ToLower :: "string \<Rightarrow> string" where
  "ascii_ToLower s = map ascii_lower_char s"

section \<open>The service's helpers\<close>

text \<open>\<^verbatim>\<open>getContentType\<close>, a switch on the format tag.\<close>

definition getContentType :: "string \<Rightarrow> string" where
  "getContentType format =
     (if format = ''jpeg'' then ''image/jpeg''
      else if format = ''png'' then ''image/png''
      else ''application/octet-stream'')"

text \<open>
  The names computed at the head of \<^verbatim>\<open>ProcessAndUploadImage\<close> and in its loop:
  \<open>fileExt\<close>, \<open>fileNameWithoutExt\<close>, \<open>originalFileName\<close> and
  \<open>compressedFileName\<close>. The \<^verbatim>\<open>Sprintf\<close> formats are
  \<^verbatim>\<open>"%s_%d%s"\<close> and \<^verbatim>\<open>"%s_%dx%d_%d%s"\<close>.
\<close>

definition fileExt :: "(string \<Rightarrow> string) \<Rightarrow> string \<Rightarrow> string" where
  "fileExt ToLower filename = ToLower (Ext filename)"

definition fileNameWithoutExt :: "(string \<Rightarrow> string) \<Rightarrow> string \<Rightarrow> string" where
  "fileNameWithoutExt ToLower filename = TrimSuffix filename (fileExt ToLower filename)"

definition originalFileName :: "string \<Rightarrow> int \<Rightarrow> string \<Rightarrow> string" where
  "originalFileName base timestamp ext = base @ ''_'' @ Sprintf_d timestamp @ ext"

definition compressedFileName :: "string \<Rightarrow> CompressSpec \<Rightarrow> int \<Rightarrow> string \<Rightarrow> string" where
  "compressedFileName base spec timestamp ext =
     base @ ''_'' @ Sprintf_d (CompressSpec.Width spec) @ ''x''
       @ Sprintf_d (CompressSpec.Height spec) @ ''_'' @ Sprintf_d timestamp @ ext"

section \<open>The world outside the service\<close>

text \<open>
  The image codecs, the resizer and the S3 client are libraries. The service is
  modelled over any behaviour of theirs: \<open>'img\<close> is the type of decoded rasters
  and \<open>'s\<close> the state of the object store behind the client. A library error is
  the text of its message.
  \<^item> \<open>image_Decode\<close>: \<^verbatim>\<open>image.Decode\<close>, a raster and its format tag, or an error;
  \<^item> \<open>Bounds_Dx\<close>, \<open>Bounds_Dy\<close>: \<^verbatim>\<open>img.Bounds().Dx()\<close> and \<^verbatim>\<open>.Dy()\<close>;
  \<^item> \<open>resize_Resize\<close>: \<^verbatim>\<open>resize.Resize(w, h, img, resize.Lanczos3)\<close>, whose
    targets are \<^verbatim>\<open>uint\<close>; the resized raster, or \<open>None\<close> when the call panics;
  \<^item> \<open>jpeg_Encode\<close> (with the quality) and \<open>png_Encode\<close>: the bytes written to
    the buffer, or an error;
  \<^item> \<open>strings_ToLower\<close>;
  \<^item> \<open>s3_PutObject\<close>, \<open>s3_HeadObject\<close>: one request to the store, which answers
    with an error or with none and moves to a new state.
\<close>

record PutObjectInput =
  Bucket :: string
  Key :: string
  Body :: bytes
  ContentType :: string

record HeadObjectInput =
  Bucket :: string
  Key :: string

record ('img, 's) libraries =
  image_Decode :: "bytes \<Rightarrow> string + ('img \<times> string)"
  Bounds_Dx :: "'img \<Rightarrow> int"
  Bounds_Dy :: "'img \<Rightarrow> int"
  resize_Resize :: "64 word \<Rightarrow> 64 word \<Rightarrow> 'img \<Rightarrow> 'img option"
  jpeg_Encode :: "'img \<Rightarrow> int \<Rightarrow> string + bytes"
  png_Encode :: "'img \<Rightarrow> string + bytes"
  strings_ToLower :: "string \<Rightarrow> string"
  s3_PutObject :: "PutObjectInput \<Rightarrow> 's \<Rightarrow> string option \<times> 's"
  s3_HeadObject :: "HeadObjectInput \<Rightarrow> 's \<Rightarrow> string option \<times> 's"

text \<open>
  What a call of the service can change: the store, the sequence of requests the
  client has sent to it (oldest first), and the lines written by
  \<^verbatim>\<open>log.Printf\<close>.
\<close>

datatype s3_request = PutObject PutObjectInput | HeadObject HeadObjectInput

record 's world =
  s3 :: 's
  requests :: "s3_request list"
  log_lines :: "string list"

definition log_Printf :: "string \<Rightarrow> 's world \<Rightarrow> 's world" where
  "log_Printf line w = w\<lparr>log_lines := log_lines w @ [line]\<rparr>"

section \<open>\<^verbatim>\<open>internal/repository\<close>: the S3 repository\<close>

definition object_URL :: "S3Config \<Rightarrow> string \<Rightarrow> string" where
  "object_URL cfg fileName =
     (if Endpoint cfg \<noteq> [] then Endpoint cfg @ ''/'' @ BucketName cfg @ ''/'' @ fileName
      else ''https://'' @ BucketName cfg @ ''.s3.'' @ Region cfg @ ''.amazonaws.com/'' @ fileName)"

definition UploadFile ::
  "('img, 's) libraries \<Rightarrow> S3Config \<Rightarrow> bytes \<Rightarrow> string \<Rightarrow> string \<Rightarrow> 's world
     \<Rightarrow> (string + string) \<times> 's world" where
  "UploadFile lib cfg fileBytes fileName contentType w =
     (let input = \<lparr>PutObjectInput.Bucket = BucketName cfg, Key = fileName,
                    Body = fileBytes, ContentType = contentType\<rparr>;
          (err, store) = s3_PutObject lib input (s3 w);
          w' = w\<lparr>s3 := store, requests := requests w @ [PutObject input]\<rparr>
      in case err of
           Some e \<Rightarrow> (Inl e, w')
         | None \<Rightarrow> (Inr (object_URL cfg fileName), w'))"

definition GetFile ::
  "('img, 's) libraries \<Rightarrow> S3Config \<Rightarrow> string \<Rightarrow> 's world
     \<Rightarrow> (bool \<times> string option) \<times> 's world" where
  "GetFile lib cfg fileName w =
     (let input = \<lparr>HeadObjectInput.Bucket = BucketName cfg, Key = fileName\<rparr>;
          (err, store) = s3_HeadObject lib input (s3 w);
          w' = w\<lparr>s3 := store, requests := requests w @ [HeadObject input]\<rparr>
      in case err of
           Some e \<Rightarrow> ((False, Some e), w')
         | None \<Rightarrow> ((True, None), w'))"

section \<open>\<^verbatim>\<open>internal/service\<close>: \<^verbatim>\<open>ProcessAndUploadImage\<close>\<close>

text \<open>
  One round of the loop over \<open>compressSizes\<close>: resize, encode in the format of
  the original, upload. \<^verbatim>\<open>resize.Resize\<close> has no error result: where it fails it
  panics, and then neither the round nor the request returns (\<open>Panicked\<close>).
  Otherwise the round ends in one of three ways; \<open>EncodeFailed\<close> and
  \<open>UploadFailed\<close> are the \<^verbatim>\<open>continue\<close> branches, which log and add nothing to
  the response.
\<close>

datatype variant_outcome =
  Panicked
| EncodeFailed string
| UploadFailed string
| Uploaded ImageResult

definition encode_variant :: "('img, 's) libraries \<Rightarrow> string \<Rightarrow> 'img \<Rightarrow> string + bytes" where
  "encode_variant lib format resizedImg =
     (if format = ''jpeg'' then jpeg_Encode lib resizedImg 85 else png_Encode lib resizedImg)"

definition process_spec ::
  "('img, 's) libraries \<Rightarrow> S3Config \<Rightarrow> 'img \<Rightarrow> string \<Rightarrow> string \<Rightarrow> int \<Rightarrow> string
     \<Rightarrow> CompressSpec \<Rightarrow> 's world \<Rightarrow> variant_outcome \<times> 's world" where
  "process_spec lib cfg img format base timestamp ext spec w =
     (case resize_Resize lib (word_of_int (CompressSpec.Width spec))
             (word_of_int (CompressSpec.Height spec)) img of
        None \<Rightarrow> (Panicked, w)
      | Some resizedImg \<Rightarrow>
          (case encode_variant lib format resizedImg of
             Inl encodeErr \<Rightarrow>
               (EncodeFailed encodeErr,
                log_Printf (''Failed to encode compressed image: '' @ encodeErr) w)
           | Inr buf \<Rightarrow>
               (case UploadFile lib cfg buf (compressedFileName base spec timestamp ext)
                       (getContentType format) w of
                  (Inl uploadErr, w') \<Rightarrow>
                    (UploadFailed uploadErr,
                     log_Printf (''Failed to upload compressed image: '' @ uploadErr) w')
                | (Inr compressedURL, w') \<Rightarrow>
                    (Uploaded \<lparr>ImageResult.Width = CompressSpec.Width spec,
                               Height = CompressSpec.Height spec, URL = compressedURL\<rparr>, w'))))"

text \<open>
  The loop. Its result is \<open>None\<close> when a round panicked: the rounds after it do
  not run and no response is returned.
\<close>

fun process_specs ::
  "('img, 's) libraries \<Rightarrow> S3Config \<Rightarrow> 'img \<Rightarrow> string \<Rightarrow> string \<Rightarrow> int \<Rightarrow> string
     \<Rightarrow> CompressSpec list \<Rightarrow> UploadResponse \<Rightarrow> 's world
     \<Rightarrow> UploadResponse option \<times> 's world" where
  "process_specs lib cfg img format base timestamp ext [] response w = (Some response, w)"
| "process_specs lib cfg img format base timestamp ext (spec # rest) response w =
     (case process_spec lib cfg img format base timestamp ext spec w of
        (Panicked, w') \<Rightarrow> (None, w')
      | (EncodeFailed encodeErr, w') \<Rightarrow>
          process_specs lib cfg img format base timestamp ext rest response w'
      | (UploadFailed uploadErr, w') \<Rightarrow>
          process_specs lib cfg img format base timestamp ext rest response w'
      | (Uploaded result, w') \<Rightarrow>
          process_specs lib cfg img format base timestamp ext rest
            (response\<lparr>CompressedImages := append_slice (CompressedImages response) result\<rparr>) w')"

text \<open>
  \<open>timestamp\<close> is the value that \<^verbatim>\<open>time.Now().UnixNano()\<close> returns; it is read
  once, after the decoding. The result is \<open>None\<close> when the call does not return
  because the resizer panicked, and otherwise the error or the response returned.
\<close>

definition ProcessAndUploadImage ::
  "('img, 's) libraries \<Rightarrow> S3Config \<Rightarrow> int \<Rightarrow> bytes \<Rightarrow> string \<Rightarrow> CompressSpec list
     \<Rightarrow> 's world \<Rightarrow> (service_error + UploadResponse) option \<times> 's world" where
  "ProcessAndUploadImage lib cfg timestamp fileBytes filename compressSizes w =
     (case image_Decode lib fileBytes of
        Inl err \<Rightarrow> (Some (Inl (FailedToDecodeImage err)), w)
      | Inr (img, format) \<Rightarrow>
          (let ext = fileExt (strings_ToLower lib) filename;
               base = fileNameWithoutExt (strings_ToLower lib) filename
           in case UploadFile lib cfg fileBytes (originalFileName base timestamp ext)
                     (getContentType format) w of
                (Inl err, w') \<Rightarrow> (Some (Inl (FailedToUploadOriginalImage err)), w')
              | (Inr originalURL, w') \<Rightarrow>
                  (let response =
                         \<lparr>OriginalImage =
                            \<lparr>ImageResult.Width = Bounds_Dx lib img,
                             Height = Bounds_Dy lib img, URL = originalURL\<rparr>,
                          CompressedImages = Some [],
                          Message = ''Image uploaded and processed successfully''\<rparr>
                   in case process_specs lib cfg img format base timestamp ext
                             compressSizes response w' of
                        (None, w'') \<Rightarrow> (None, w'')
                      | (Some response', w'') \<Rightarrow> (Some (Inr response'), w''))))"

section \<open>\<^verbatim>\<open>internal/service\<close>: \<^verbatim>\<open>GetImageInfo\<close>\<close>

subsection \<open>\<^verbatim>\<open>strings.Split\<close> and \<^verbatim>\<open>fmt.Sscanf\<close>\<close>

text \<open>
  \<^verbatim>\<open>strings.Split\<close> for a separator of one byte, the only kind the service
  passes: the pieces between the occurrences of the separator, one more than there
  are occurrences.
\<close>

fun Split :: "string \<Rightarrow> char \<Rightarrow> string list" where
  "Split [] sep = [[]]"
| "Split (c # s) sep =
     (if c = sep then [] # Split s sep
      else (let parts = Split s sep in (c # hd parts) # tl parts))"

text \<open>
  \<^verbatim>\<open>fmt.Sscanf(s, "%d", &n)\<close> skips leading space, accepts one sign, then reads
  decimal digits as long as there are some, and leaves the rest of the input
  unread. The token goes to \<^verbatim>\<open>strconv.ParseInt(tok, 10, 64)\<close>. When the scan fails
  (a newline in the leading space, no digit, a value outside 64 bits) the variable
  keeps its value; the service ignores the error.

  The scanner reads UTF-8. \<open>space_encodings\<close> are the encodings of the space
  characters in the table of \<^verbatim>\<open>fmt\<close> (U+0009 to U+000D, U+0020, U+0085, U+00A0,
  U+1680, U+2000 to U+200A, U+2028, U+2029, U+202F, U+205F, U+3000), and
  \<open>isSpace_prefix\<close> is the number of bytes of the one the input starts with, or 0.
\<close>

definition space_encodings :: "string list" where
  "space_encodings =
     [[CHR 0x09], [CHR 0x0A], [CHR 0x0B], [CHR 0x0C], [CHR 0x0D], [CHR 0x20],
      [CHR 0xC2, CHR 0x85], [CHR 0xC2, CHR 0xA0],
      [CHR 0xE1, CHR 0x9A, CHR 0x80],
      [CHR 0xE2, CHR 0x80, CHR 0x80], [CHR 0xE2, CHR 0x80, CHR 0x81],
      [CHR 0xE2, CHR 0x80, CHR 0x82], [CHR 0xE2, CHR 0x80, CHR 0x83],
      [CHR 0xE2, CHR 0x80, CHR 0x84], [CHR 0xE2, CHR 0x80, CHR 0x85],
      [CHR 0xE2, CHR 0x80, CHR 0x86], [CHR 0xE2, CHR 0x80, CHR 0x87],
      [CHR 0xE2, CHR 0x80, CHR 0x88], [CHR 0xE2, CHR 0x80, CHR 0x89],
      [CHR 0xE2, CHR 0x80, CHR 0x8A],
      [CHR 0xE2, CHR 0x80, CHR 0xA8], [CHR 0xE2, CHR 0x80, CHR 0xA9],
      [CHR 0xE2, CHR 0x80, CHR 0xAF],
      [CHR 0xE2, CHR 0x81, CHR 0x9F],
      [CHR 0xE3, CHR 0x80, CHR 0x80]]"

definition isSpace_prefix :: "string \<Rightarrow> nat" where
  "isSpace_prefix s =
     (case find (\<lambda>enc. take (length enc) s = enc) space_encodings of
        None \<Rightarrow> 0
      | Some enc \<Rightarrow> length enc)"

text \<open>
  \<^verbatim>\<open>SkipSpace\<close> for \<^verbatim>\<open>Sscanf\<close>, where a newline is not space: \<open>None\<close> is the
  error \<^verbatim>\<open>unexpected newline\<close>, and a carriage return before a newline is skipped
  like any space.
\<close>

function SkipSpace :: "string \<Rightarrow> string option" where
  "SkipSpace s =
     (if s = [] then Some []
      else if hd s = CHR 0x0A then None
      else if isSpace_prefix s = 0 then Some s
      else SkipSpace (drop (isSpace_prefix s) s))"
  by pat_completeness auto
termination
  by (relation "measure length") auto

declare SkipSpace.simps [simp del]

definition is_digit :: "char \<Rightarrow> bool" where
  "is_digit c = (c \<in> set ''0123456789'')"

definition dec_value :: "string \<Rightarrow> int" where
  "dec_value ds = foldl (\<lambda>acc c. 10 * acc + (of_char c - 48)) 0 ds"

text \<open>\<^verbatim>\<open>strconv.ParseInt(tok, 10, 64)\<close> on a token made of an optional sign and digits.\<close>

definition ParseInt :: "string \<Rightarrow> int option" where
  "ParseInt tok =
     (let v = (case tok of
                 [] \<Rightarrow> 0
               | c # ds \<Rightarrow>
                   if c = CHR ''-'' then - dec_value ds
                   else if c = CHR ''+'' then dec_value ds
                   else dec_value tok)
      in if - (2 ^ 63) \<le> v \<and> v < 2 ^ 63 then Some v else None)"

definition Sscanf_d :: "string \<Rightarrow> int option" where
  "Sscanf_d input =
     (case SkipSpace input of
        None \<Rightarrow> None
      | Some s \<Rightarrow>
          (let sign = (if s \<noteq> [] \<and> (hd s = CHR ''+'' \<or> hd s = CHR ''-'') then [hd s] else []);
               s' = drop (length sign) s;
               digits = takeWhile is_digit s'
           in if digits = [] then None else ParseInt (sign @ digits)))"

text \<open>The variable after \<^verbatim>\<open>n := 0; fmt.Sscanf(s, "%d", &n)\<close>.\<close>

definition scanned_or_zero :: "string \<Rightarrow> int" where
  "scanned_or_zero s = (case Sscanf_d s of None \<Rightarrow> 0 | Some v \<Rightarrow> v)"

subsection \<open>The service function\<close>

definition GetImageInfo ::
  "('img, 's) libraries \<Rightarrow> S3Config \<Rightarrow> string \<Rightarrow> 's world
     \<Rightarrow> (service_error + ImageResult) \<times> 's world" where
  "GetImageInfo lib cfg filename w =
     (case GetFile lib cfg filename w of
        ((exists, err), w') \<Rightarrow>
          if err \<noteq> None \<or> \<not> exists then (Inl ImageNotFound, w')
          else
            (let imageURL = ''https://s3-url/'' @ filename;
                 no_dimensions = \<lparr>ImageResult.Width = 0, Height = 0, URL = imageURL\<rparr>;
                 parts = Split filename (CHR ''_'')
             in if 2 \<le> length parts then
                  (let dimParts = Split (parts ! (length parts - 2)) (CHR ''x'')
                   in if length dimParts = 2 then
                        (let width = scanned_or_zero (dimParts ! 0);
                             height = scanned_or_zero (dimParts ! 1)
                         in if 0 < width \<and> 0 < height
                            then (Inr \<lparr>ImageResult.Width = width, Height = height,
                                       URL = imageURL\<rparr>, w')
                            else (Inr no_dimensions, w'))
                      else (Inr no_dimensions, w'))
                else (Inr no_dimensions, w')))"

text \<open>
  The reading of the name that the specification gives: the segment before the last
  underscore has the form \<^verbatim>\<open><W>x<H>\<close>, two decimal numerals around one
  \<^verbatim>\<open>x\<close>.
\<close>

definition is_decimal :: "string \<Rightarrow> bool" where
  "is_decimal ds = (ds \<noteq> [] \<and> list_all is_digit ds)"

definition spec_WxH_form :: "string \<Rightarrow> bool" where
  "spec_WxH_form segment =
     (case Split segment (CHR ''x'') of
        [a, b] \<Rightarrow> is_decimal a \<and> is_decimal b \<and> 0 < dec_value a \<and> 0 < dec_value b
      | _ \<Rightarrow> False)"

text \<open>
  The reading of the name that the code makes. \<open>blank\<close> text is a sequence of
  space characters other than the newline. A piece of the segment has the leading
  numeral \<open>n\<close> when it is blank text, then at most a plus sign, then a decimal
  numeral of value \<open>n\<close>, then anything that does not go on with a digit. The name
  carries the dimensions \<open>W\<close> and \<open>H\<close> when it has an underscore and its segment
  before the last underscore is two pieces around its only \<^verbatim>\<open>x\<close>, with leading
  numerals \<open>W\<close> and \<open>H\<close> from 1 to \<open>2\<^sup>6\<^sup>3 - 1\<close>.
\<close>

inductive blank :: "string \<Rightarrow> bool" where
  blank_Nil: "blank []"
| blank_space: "enc \<in> set space_encodings \<Longrightarrow> enc \<noteq> [CHR 0x0A] \<Longrightarrow> blank s \<Longrightarrow> blank (enc @ s)"

definition leading_numeral :: "string \<Rightarrow> int \<Rightarrow> bool" where
  "leading_numeral piece n =
     (\<exists>sp sign ds rest.
        piece = sp @ sign @ ds @ rest \<and> blank sp \<and> (sign = [] \<or> sign = ''+'') \<and>
        is_decimal ds \<and> (rest = [] \<or> \<not> is_digit (hd rest)) \<and> n = dec_value ds)"

definition name_dimensions :: "string \<Rightarrow> int \<Rightarrow> int \<Rightarrow> bool" where
  "name_dimensions filename W H =
     (CHR ''_'' \<in> set filename \<and>
      (\<exists>pw ph.
         Split filename (CHR ''_'') ! (length (Split filename (CHR ''_'')) - 2) = pw @ ''x'' @ ph \<and>
         CHR ''x'' \<notin> set pw \<and> CHR ''x'' \<notin> set ph \<and>
         leading_numeral pw W \<and> 0 < W \<and> W < 2 ^ 63 \<and>
         leading_numeral ph H \<and> 0 < H \<and> H < 2 ^ 63))"

section \<open>Reading an execution\<close>

text \<open>The entry of the response for a spec whose variant was stored.\<close>

definition variant_result :: "S3Config \<Rightarrow> string \<Rightarrow> int \<Rightarrow> string \<Rightarrow> CompressSpec \<Rightarrow> ImageResult" where
  "variant_result cfg base timestamp ext spec =
     \<lparr>ImageResult.Width = CompressSpec.Width spec, Height = CompressSpec.Height spec,
      URL = object_URL cfg (compressedFileName base spec timestamp ext)\<rparr>"

text \<open>
  The request that uploads the original, and the request that uploads the bytes
  \<open>buf\<close> as the variant of a spec.
\<close>

definition original_request ::
  "('img, 's) libraries \<Rightarrow> S3Config \<Rightarrow> int \<Rightarrow> bytes \<Rightarrow> string \<Rightarrow> string \<Rightarrow> PutObjectInput" where
  "original_request lib cfg timestamp fileBytes filename format =
     \<lparr>PutObjectInput.Bucket = BucketName cfg,
      Key = originalFileName (fileNameWithoutExt (strings_ToLower lib) filename) timestamp
              (fileExt (strings_ToLower lib) filename),
      Body = fileBytes, ContentType = getContentType format\<rparr>"

definition variant_put ::
  "S3Config \<Rightarrow> string \<Rightarrow> string \<Rightarrow> int \<Rightarrow> string \<Rightarrow> CompressSpec \<Rightarrow> bytes \<Rightarrow> PutObjectInput" where
  "variant_put cfg format base timestamp ext spec buf =
     \<lparr>PutObjectInput.Bucket = BucketName cfg,
      Key = compressedFileName base spec timestamp ext,
      Body = buf, ContentType = getContentType format\<rparr>"

text \<open>
  The store on its own: the state it is in after a sequence of put requests, and
  the answers it gives to them, each request reaching the state the one before
  left.
\<close>

fun store_after :: "('img, 's) libraries \<Rightarrow> PutObjectInput list \<Rightarrow> 's \<Rightarrow> 's" where
  "store_after lib [] store = store"
| "store_after lib (input # inputs) store =
     store_after lib inputs (snd (s3_PutObject lib input store))"

fun put_answers :: "('img, 's) libraries \<Rightarrow> PutObjectInput list \<Rightarrow> 's \<Rightarrow> string option list" where
  "put_answers lib [] store = []"
| "put_answers lib (input # inputs) store =
     fst (s3_PutObject lib input store) # put_answers lib inputs (snd (s3_PutObject lib input store))"

text \<open>
  Of a list of items, each with the answer to its put: the items whose put was
  accepted; and the errors of the puts that were refused.
\<close>

fun accepted :: "'a list \<Rightarrow> string option list \<Rightarrow> 'a list" where
  "accepted (x # xs) (None # answers) = x # accepted xs answers"
| "accepted (x # xs) (Some e # answers) = accepted xs answers"
| "accepted xs answers = []"

fun refusals :: "string option list \<Rightarrow> string list" where
  "refusals [] = []"
| "refusals (None # answers) = refusals answers"
| "refusals (Some e # answers) = e # refusals answers"

text \<open>
  A variant \<open>v\<close> is accounted for by the puts \<open>sent\<close> to a store that started in
  \<open>store\<close> when it is the entry of a spec of the request, the resizer returned a
  raster for that spec, the encoder returned bytes for that raster, and the put of
  these bytes under the key of the spec is one of the puts sent and was accepted by
  the store in the state it had reached.
\<close>

definition accounted_for ::
  "('img, 's) libraries \<Rightarrow> S3Config \<Rightarrow> 'img \<Rightarrow> string \<Rightarrow> string \<Rightarrow> int \<Rightarrow> string
     \<Rightarrow> CompressSpec list \<Rightarrow> 's \<Rightarrow> PutObjectInput list \<Rightarrow> ImageResult \<Rightarrow> bool" where
  "accounted_for lib cfg img format base timestamp ext specs store sent v =
     (\<exists>spec \<in> set specs. \<exists>resized buf earlier later.
        v = variant_result cfg base timestamp ext spec \<and>
        resize_Resize lib (word_of_int (CompressSpec.Width spec))
          (word_of_int (CompressSpec.Height spec)) img = Some resized \<and>
        (if format = ''jpeg'' then jpeg_Encode lib resized 85 else png_Encode lib resized)
          = Inr buf \<and>
        sent = earlier @ variant_put cfg format base timestamp ext spec buf # later \<and>
        fst (s3_PutObject lib (variant_put cfg format base timestamp ext spec buf)
               (store_after lib earlier store)) = None)"

text \<open>The world after a put request has been sent and answered.\<close>

definition after_put :: "('img, 's) libraries \<Rightarrow> PutObjectInput \<Rightarrow> 's world \<Rightarrow> 's world" where
  "after_put lib input w =
     w\<lparr>s3 := snd (s3_PutObject lib input (s3 w)), requests := requests w @ [PutObject input]\<rparr>"

fun request_key :: "s3_request \<Rightarrow> string" where
  "request_key (PutObject input) = PutObjectInput.Key input"
| "request_key (HeadObject input) = HeadObjectInput.Key input"

section \<open>A test double for the libraries\<close>

text \<open>
  For running the service on concrete inputs: a raster is known by its bounds only,
  the store is a map from keys to bodies with their content types, and a put is
  refused for the keys in \<open>denied\<close>.

  The resizer of the double behaves as documented for \<^verbatim>\<open>nfnt/resize\<close>: a target
  of 0 in one dimension is computed from the other one so that the aspect ratio is
  kept, a target of 0 in both returns the input, and so does an input without
  pixels. Otherwise it panics on a target that is negative when read as an
  \<^verbatim>\<open>int\<close>, which is what a negative width or height of a spec becomes once
  converted to \<^verbatim>\<open>uint\<close>. The library computes the missing
  dimension in \<^verbatim>\<open>float64\<close> and the double in exact arithmetic; the two agree
  when the quotient is an integer, as in every run below, and may differ by one
  pixel when it is not.
\<close>

type_synonym raster = "int \<times> int"

type_synonym mem_store = "string \<rightharpoonup> bytes \<times> string"

definition photo_jpg :: bytes where
  "photo_jpg = [0xFF, 0xD8, 0xFF, 0xE0]"

definition demo_Decode :: "bytes \<Rightarrow> string + (raster \<times> string)" where
  "demo_Decode fileBytes =
     (if fileBytes = photo_jpg then Inr ((1920, 1080), ''jpeg'')
      else Inl ''image: unknown format'')"

definition demo_Resize :: "64 word \<Rightarrow> 64 word \<Rightarrow> raster \<Rightarrow> raster option" where
  "demo_Resize width height img =
     (let dx = fst img; dy = snd img; w = uint width; h = uint height
      in if dx \<le> 0 \<or> dy \<le> 0 then Some img
         else if 2 ^ 63 \<le> w \<or> 2 ^ 63 \<le> h then None
         else if w = 0 \<and> h = 0 then Some img
         else if w = 0 then Some ((7 * dy + 10 * dx * h) div (10 * dy), h)
         else if h = 0 then Some (w, (7 * dx + 10 * dy * w) div (10 * dx))
         else Some (w, h))"

definition demo_jpeg_Encode :: "raster \<Rightarrow> int \<Rightarrow> string + bytes" where
  "demo_jpeg_Encode img quality =
     (if 65535 < fst img \<or> 65535 < snd img then Inl ''jpeg: image is too large to encode''
      else Inr [0xFF, 0xD8, word_of_int (fst img), word_of_int (snd img)])"

definition demo_png_Encode :: "raster \<Rightarrow> string + bytes" where
  "demo_png_Encode img = Inr [0x89, 0x50, word_of_int (fst img), word_of_int (snd img)]"

definition mem_PutObject :: "string list \<Rightarrow> PutObjectInput \<Rightarrow> mem_store \<Rightarrow> string option \<times> mem_store" where
  "mem_PutObject denied input store =
     (if PutObjectInput.Key input \<in> set denied then (Some ''AccessDenied'', store)
      else (None, store(PutObjectInput.Key input \<mapsto> (Body input, ContentType input))))"

definition mem_HeadObject :: "HeadObjectInput \<Rightarrow> mem_store \<Rightarrow> string option \<times> mem_store" where
  "mem_HeadObject input store =
     (case store (HeadObjectInput.Key input) of
        None \<Rightarrow> (Some ''NotFound'', store)
      | Some obj \<Rightarrow> (None, store))"

definition demo_lib :: "string list \<Rightarrow> (raster, mem_store) libraries" where
  "demo_lib denied =
     \<lparr>image_Decode = demo_Decode, Bounds_Dx = fst, Bounds_Dy = snd,
      resize_Resize = demo_Resize, jpeg_Encode = demo_jpeg_Encode,
      png_Encode = demo_png_Encode, strings_ToLower = ascii_ToLower,
      s3_PutObject = mem_PutObject denied, s3_HeadObject = mem_HeadObject\<rparr>"

definition demo_cfg :: S3Config where
  "demo_cfg = \<lparr>Region = ''eu-west-1'', BucketName = ''images'', AccessKeyID = ''id'',
               SecretAccessKey = ''secret'', Endpoint = []\<rparr>"

definition empty_world :: "mem_store world" where
  "empty_world = \<lparr>s3 = Map.empty, requests = [], log_lines = []\<rparr>"

definition size_spec :: "int \<Rightarrow> int \<Rightarrow> CompressSpec" where
  "size_spec w h = \<lparr>CompressSpec.Width = w, Height = h\<rparr>"

text \<open>A world whose store holds one object.\<close>

definition world_with :: "string \<Rightarrow> mem_store world" where
  "world_with key = \<lparr>s3 = [key \<mapsto> (photo_jpg, ''image/jpeg'')], requests = [], log_lines = []\<rparr>"

section \<open>Properties\<close>

text \<open>
  C8: the content type is \<^verbatim>\<open>image/jpeg\<close> for the tag \<^verbatim>\<open>jpeg\<close>,
  \<^verbatim>\<open>image/png\<close> for the tag \<^verbatim>\<open>png\<close>, and
  \<^verbatim>\<open>application/octet-stream\<close> for every other tag.
\<close>

theorem getContentType_table:
  "getContentType ''jpeg'' = ''image/jpeg'' \<and>
   getContentType ''png'' = ''image/png'' \<and>
   (\<forall>format. format \<noteq> ''jpeg'' \<and> format \<noteq> ''png'' \<longrightarrow>
      getContentType format = ''application/octet-stream'')"
  by (simp add: getContentType_def)

theorem getContentType_table_witness:
  "''gif'' \<noteq> ''jpeg'' \<and> ''gif'' \<noteq> ''png'' \<and>
   getContentType ''gif'' = ''application/octet-stream'' \<and>
   getContentType ''jpeg'' = ''image/jpeg''"
  using getContentType_table by simp

subsection \<open>The repository and one round of the loop\<close>

lemma UploadFile_eq:
  "UploadFile lib cfg fileBytes fileName contentType w =
     (let input = \<lparr>PutObjectInput.Bucket = BucketName cfg, Key = fileName,
                    Body = fileBytes, ContentType = contentType\<rparr>;
          w' = after_put lib input w
      in case fst (s3_PutObject lib input (s3 w)) of
           Some e \<Rightarrow> (Inl e, w')
         | None \<Rightarrow> (Inr (object_URL cfg fileName), w'))"
  by (simp add: UploadFile_def after_put_def Let_def split: prod.splits option.splits)

text \<open>A round whose raster was resized and encoded: the answer of the store decides.\<close>

lemma process_spec_encoded:
  assumes "resize_Resize lib (word_of_int (CompressSpec.Width spec))
             (word_of_int (CompressSpec.Height spec)) img = Some resized"
    and "(if format = ''jpeg'' then jpeg_Encode lib resized 85 else png_Encode lib resized) = Inr buf"
  shows "process_spec lib cfg img format base timestamp ext spec w =
           (case fst (s3_PutObject lib (variant_put cfg format base timestamp ext spec buf) (s3 w)) of
              None \<Rightarrow>
                (Uploaded (variant_result cfg base timestamp ext spec),
                 after_put lib (variant_put cfg format base timestamp ext spec buf) w)
            | Some e \<Rightarrow>
                (UploadFailed e,
                 log_Printf (''Failed to upload compressed image: '' @ e)
                   (after_put lib (variant_put cfg format base timestamp ext spec buf) w)))"
  using assms
  by (simp add: process_spec_def encode_variant_def UploadFile_eq variant_put_def
      variant_result_def Let_def split: option.splits)

lemma process_spec_Panicked:
  "fst (process_spec lib cfg img format base timestamp ext spec w) = Panicked \<longleftrightarrow>
   resize_Resize lib (word_of_int (CompressSpec.Width spec))
     (word_of_int (CompressSpec.Height spec)) img = None"
  by (auto simp: process_spec_def UploadFile_eq Let_def split: option.splits sum.splits)

lemma store_after_append:
  "store_after lib (xs @ ys) store = store_after lib ys (store_after lib xs store)"
  by (induction xs arbitrary: store) auto

lemma accounted_for_first:
  assumes "accounted_for lib cfg img format base timestamp ext [spec] store sent v"
  shows "accounted_for lib cfg img format base timestamp ext (spec # rest) store (sent @ sent1) v"
proof -
  from assms obtain resized buf earlier later where
    "v = variant_result cfg base timestamp ext spec"
    "resize_Resize lib (word_of_int (CompressSpec.Width spec))
       (word_of_int (CompressSpec.Height spec)) img = Some resized"
    "(if format = ''jpeg'' then jpeg_Encode lib resized 85 else png_Encode lib resized) = Inr buf"
    "sent = earlier @ variant_put cfg format base timestamp ext spec buf # later"
    "fst (s3_PutObject lib (variant_put cfg format base timestamp ext spec buf)
            (store_after lib earlier store)) = None"
    unfolding accounted_for_def by auto
  then show ?thesis
    unfolding accounted_for_def
    by (intro bexI[of _ spec] exI[of _ resized] exI[of _ buf] exI[of _ earlier]
        exI[of _ "later @ sent1"]) simp_all
qed

lemma accounted_for_later:
  assumes "accounted_for lib cfg img format base timestamp ext rest
             (store_after lib sent0 store) sent v"
  shows "accounted_for lib cfg img format base timestamp ext (spec # rest) store (sent0 @ sent) v"
proof -
  from assms obtain spec' resized buf earlier later where
    "spec' \<in> set rest"
    "v = variant_result cfg base timestamp ext spec'"
    "resize_Resize lib (word_of_int (CompressSpec.Width spec'))
       (word_of_int (CompressSpec.Height spec')) img = Some resized"
    "(if format = ''jpeg'' then jpeg_Encode lib resized 85 else png_Encode lib resized) = Inr buf"
    "sent = earlier @ variant_put cfg format base timestamp ext spec' buf # later"
    "fst (s3_PutObject lib (variant_put cfg format base timestamp ext spec' buf)
            (store_after lib earlier (store_after lib sent0 store))) = None"
    unfolding accounted_for_def by auto
  then show ?thesis
    unfolding accounted_for_def
    by (intro bexI[of _ spec'] exI[of _ resized] exI[of _ buf] exI[of _ "sent0 @ earlier"]
        exI[of _ later]) (simp_all add: store_after_append)
qed

text \<open>What one round sends, and what it knows about the entry it returns.\<close>

lemma process_spec_round:
  assumes "process_spec lib cfg img format base timestamp ext spec w = (out, w')"
  shows "\<exists>sent. requests w' = requests w @ map PutObject sent \<and>
                s3 w' = store_after lib sent (s3 w) \<and>
                (\<forall>v. out = Uploaded v \<longrightarrow>
                   accounted_for lib cfg img format base timestamp ext [spec] (s3 w) sent v)"
proof (cases "resize_Resize lib (word_of_int (CompressSpec.Width spec))
                (word_of_int (CompressSpec.Height spec)) img")
  case None
  with assms have "w' = w" and "out = Panicked"
    by (auto simp: process_spec_def)
  then show ?thesis
    by (intro exI[of _ "[]"]) simp
next
  case (Some resized)
  show ?thesis
  proof (cases "if format = ''jpeg'' then jpeg_Encode lib resized 85 else png_Encode lib resized")
    case (Inl e)
    with Some assms have "requests w' = requests w" "s3 w' = s3 w" "out = EncodeFailed e"
      by (auto simp: process_spec_def encode_variant_def log_Printf_def)
    then show ?thesis
      by (intro exI[of _ "[]"]) simp
  next
    case (Inr buf)
    let ?put = "variant_put cfg format base timestamp ext spec buf"
    note round = process_spec_encoded[OF Some Inr, of cfg base timestamp ext w]
    show ?thesis
    proof (cases "fst (s3_PutObject lib ?put (s3 w))")
      case None
      with round assms have out: "out = Uploaded (variant_result cfg base timestamp ext spec)"
        and w': "w' = after_put lib ?put w"
        by simp_all
      have "accounted_for lib cfg img format base timestamp ext [spec] (s3 w) [?put]
              (variant_result cfg base timestamp ext spec)"
        unfolding accounted_for_def
        using Some Inr None
        by (intro bexI[of _ spec] exI[of _ resized] exI[of _ buf] exI[of _ "[]"]) simp_all
      then show ?thesis
        by (intro exI[of _ "[?put]"]) (simp add: out w' after_put_def)
    next
      case (Some e)
      with round assms have out: "out = UploadFailed e"
        and w': "w' = log_Printf (''Failed to upload compressed image: '' @ e) (after_put lib ?put w)"
        by simp_all
      show ?thesis
        by (intro exI[of _ "[?put]"]) (simp add: out w' after_put_def log_Printf_def)
    qed
  qed
qed

subsection \<open>The loop\<close>

lemma foldl_append_slice: "foldl append_slice (Some xs) rs = Some (xs @ rs)"
  by (induction rs arbitrary: xs) auto

lemma process_specs_returns:
  "fst (process_specs lib cfg img format base timestamp ext specs response w) \<noteq> None \<longleftrightarrow>
   (\<forall>spec \<in> set specs.
      resize_Resize lib (word_of_int (CompressSpec.Width spec))
        (word_of_int (CompressSpec.Height spec)) img \<noteq> None)"
proof (induction specs arbitrary: response w)
  case Nil
  then show ?case by simp
next
  case (Cons spec rest)
  obtain out w' where step: "process_spec lib cfg img format base timestamp ext spec w = (out, w')"
    by (cases "process_spec lib cfg img format base timestamp ext spec w")
  have panic: "out = Panicked \<longleftrightarrow>
      resize_Resize lib (word_of_int (CompressSpec.Width spec))
        (word_of_int (CompressSpec.Height spec)) img = None"
    using process_spec_Panicked[of lib cfg img format base timestamp ext spec w] by (simp add: step)
  show ?case
    using panic by (cases out) (simp_all add: step Cons.IH del: not_None_eq)
qed

text \<open>
  Any run of the loop: the puts it sent, the store it left, and, when it returned,
  a response that differs from the one it started with by entries that are all
  accounted for.
\<close>

lemma process_specs_run:
  assumes "process_specs lib cfg img format base timestamp ext specs response w = (res, w')"
  shows "\<exists>sent. requests w' = requests w @ map PutObject sent \<and>
                s3 w' = store_after lib sent (s3 w) \<and>
                (\<forall>response'. res = Some response' \<longrightarrow>
                   (\<exists>new. response' = response\<lparr>CompressedImages :=
                                         foldl append_slice (CompressedImages response) new\<rparr> \<and>
                          (\<forall>v \<in> set new. accounted_for lib cfg img format base timestamp ext
                                            specs (s3 w) sent v)))"
  using assms
proof (induction specs arbitrary: response w)
  case Nil
  then show ?case
    by (intro exI[of _ "[]"]) (auto intro: exI[of _ "[]"])
next
  case (Cons spec rest)
  obtain out w1 where step: "process_spec lib cfg img format base timestamp ext spec w = (out, w1)"
    by (cases "process_spec lib cfg img format base timestamp ext spec w")
  from process_spec_round[OF step] obtain sent0 where
    req0: "requests w1 = requests w @ map PutObject sent0"
    and store0: "s3 w1 = store_after lib sent0 (s3 w)"
    and entry0: "\<forall>v. out = Uploaded v \<longrightarrow>
                   accounted_for lib cfg img format base timestamp ext [spec] (s3 w) sent0 v"
    by blast
  show ?case
  proof (cases out)
    case Panicked
    with Cons.prems step have "res = None" "w' = w1" by simp_all
    with req0 store0 show ?thesis by (intro exI[of _ sent0]) simp
  next
    case (EncodeFailed e)
    with Cons.prems step have run:
      "process_specs lib cfg img format base timestamp ext rest response w1 = (res, w')"
      by simp
    from Cons.IH[OF run] obtain sent1 where
      req1: "requests w' = requests w1 @ map PutObject sent1"
      and store1: "s3 w' = store_after lib sent1 (s3 w1)"
      and resp1: "\<forall>response'. res = Some response' \<longrightarrow>
                   (\<exists>new. response' = response\<lparr>CompressedImages :=
                                         foldl append_slice (CompressedImages response) new\<rparr> \<and>
                          (\<forall>v \<in> set new. accounted_for lib cfg img format base timestamp ext
                                            rest (s3 w1) sent1 v))"
      by blast
    have "\<forall>response'. res = Some response' \<longrightarrow>
                   (\<exists>new. response' = response\<lparr>CompressedImages :=
                                         foldl append_slice (CompressedImages response) new\<rparr> \<and>
                          (\<forall>v \<in> set new. accounted_for lib cfg img format base timestamp ext
                                            (spec # rest) (s3 w) (sent0 @ sent1) v))"
      using resp1 unfolding store0 by (blast intro: accounted_for_later)
    then show ?thesis
      using req0 req1 store0 store1
      by (intro exI[of _ "sent0 @ sent1"]) (simp add: store_after_append)
  next
    case (UploadFailed e)
    with Cons.prems step have run:
      "process_specs lib cfg img format base timestamp ext rest response w1 = (res, w')"
      by simp
    from Cons.IH[OF run] obtain sent1 where
      req1: "requests w' = requests w1 @ map PutObject sent1"
      and store1: "s3 w' = store_after lib sent1 (s3 w1)"
      and resp1: "\<forall>response'. res = Some response' \<longrightarrow>
                   (\<exists>new. response' = response\<lparr>CompressedImages :=
                                         foldl append_slice (CompressedImages response) new\<rparr> \<and>
                          (\<forall>v \<in> set new. accounted_for lib cfg img format base timestamp ext
                                            rest (s3 w1) sent1 v))"
      by blast
    have "\<forall>response'. res = Some response' \<longrightarrow>
                   (\<exists>new. response' = response\<lparr>CompressedImages :=
                                         foldl append_slice (CompressedImages response) new\<rparr> \<and>
                          (\<forall>v \<in> set new. accounted_for lib cfg img format base timestamp ext
                                            (spec # rest) (s3 w) (sent0 @ sent1) v))"
      using resp1 unfolding store0 by (blast intro: accounted_for_later)
    then show ?thesis
      using req0 req1 store0 store1
      by (intro exI[of _ "sent0 @ sent1"]) (simp add: store_after_append)
  next
    case (Uploaded r)
    let ?response1 = "response\<lparr>CompressedImages := append_slice (CompressedImages response) r\<rparr>"
    from Uploaded Cons.prems step have run:
      "process_specs lib cfg img format base timestamp ext rest ?response1 w1 = (res, w')"
      by simp
    from Cons.IH[OF run] obtain sent1 where
      req1: "requests w' = requests w1 @ map PutObject sent1"
      and store1: "s3 w' = store_after lib sent1 (s3 w1)"
      and resp1: "\<forall>response'. res = Some response' \<longrightarrow>
                   (\<exists>new. response' = ?response1\<lparr>CompressedImages :=
                                         foldl append_slice (CompressedImages ?response1) new\<rparr> \<and>
                          (\<forall>v \<in> set new. accounted_for lib cfg img format base timestamp ext
                                            rest (s3 w1) sent1 v))"
      by blast
    from entry0 Uploaded have first:
      "accounted_for lib cfg img format base timestamp ext (spec # rest) (s3 w) (sent0 @ sent1) r"
      by (auto intro: accounted_for_first)
    have "\<exists>new. response' = response\<lparr>CompressedImages :=
                                foldl append_slice (CompressedImages response) new\<rparr> \<and>
                (\<forall>v \<in> set new. accounted_for lib cfg img format base timestamp ext
                                   (spec # rest) (s3 w) (sent0 @ sent1) v)"
      if "res = Some response'" for response'
    proof -
      from resp1 that obtain new where
        new: "response' = ?response1\<lparr>CompressedImages :=
                             foldl append_slice (CompressedImages ?response1) new\<rparr>"
        and rest: "\<forall>v \<in> set new. accounted_for lib cfg img format base timestamp ext
                                     rest (s3 w1) sent1 v"
        by blast
      have "\<forall>v \<in> set (r # new). accounted_for lib cfg img format base timestamp ext
                                   (spec # rest) (s3 w) (sent0 @ sent1) v"
        using first rest unfolding store0 by (auto intro: accounted_for_later)
      moreover have "response' = response\<lparr>CompressedImages :=
                                   foldl append_slice (CompressedImages response) (r # new)\<rparr>"
        by (simp add: new)
      ultimately show ?thesis by blast
    qed
    then show ?thesis
      using req0 req1 store0 store1
      by (intro exI[of _ "sent0 @ sent1"]) (simp add: store_after_append)
  qed
qed

text \<open>
  A run of the loop in which every spec is resized and encoded: what it returns and
  the world it leaves are determined by the answers of the store to the puts.
\<close>

lemma process_specs_encoded:
  assumes "list_all2 (\<lambda>spec resized.
             resize_Resize lib (word_of_int (CompressSpec.Width spec))
               (word_of_int (CompressSpec.Height spec)) img = Some resized) specs rasters"
    and "list_all2 (\<lambda>resized buf.
             (if format = ''jpeg'' then jpeg_Encode lib resized 85 else png_Encode lib resized)
               = Inr buf) rasters bufs"
  shows "process_specs lib cfg img format base timestamp ext specs response w =
           (Some (response\<lparr>CompressedImages :=
                    foldl append_slice (CompressedImages response)
                      (accepted (map (variant_result cfg base timestamp ext) specs)
                         (put_answers lib
                            (map2 (variant_put cfg format base timestamp ext) specs bufs) (s3 w)))\<rparr>),
            w\<lparr>s3 := store_after lib
                       (map2 (variant_put cfg format base timestamp ext) specs bufs) (s3 w),
              requests := requests w @
                 map PutObject (map2 (variant_put cfg format base timestamp ext) specs bufs),
              log_lines := log_lines w @
                 map ((@) ''Failed to upload compressed image: '')
                   (refusals (put_answers lib
                      (map2 (variant_put cfg format base timestamp ext) specs bufs) (s3 w)))\<rparr>)"
  using assms
proof (induction specs arbitrary: rasters bufs response w)
  case Nil
  then show ?case by simp
next
  case (Cons spec rest)
  from Cons.prems(1) obtain resized rasters' where
    rasters: "rasters = resized # rasters'"
    and resized: "resize_Resize lib (word_of_int (CompressSpec.Width spec))
                    (word_of_int (CompressSpec.Height spec)) img = Some resized"
    and rest1: "list_all2 (\<lambda>spec resized.
             resize_Resize lib (word_of_int (CompressSpec.Width spec))
               (word_of_int (CompressSpec.Height spec)) img = Some resized) rest rasters'"
    by (auto simp: list_all2_Cons1)
  from Cons.prems(2) rasters obtain buf bufs' where
    bufs: "bufs = buf # bufs'"
    and buf: "(if format = ''jpeg'' then jpeg_Encode lib resized 85 else png_Encode lib resized)
                = Inr buf"
    and rest2: "list_all2 (\<lambda>resized buf.
             (if format = ''jpeg'' then jpeg_Encode lib resized 85 else png_Encode lib resized)
               = Inr buf) rasters' bufs'"
    by (auto simp: list_all2_Cons1)
  note round = process_spec_encoded[OF resized buf, of cfg base timestamp ext w]
  note IH = Cons.IH[OF rest1 rest2]
  show ?case
  proof (cases "fst (s3_PutObject lib (variant_put cfg format base timestamp ext spec buf) (s3 w))")
    case None
    then show ?thesis
      by (simp add: round IH bufs after_put_def)
  next
    case (Some e)
    then show ?thesis
      by (simp add: round IH bufs after_put_def log_Printf_def)
  qed
qed

lemma accepted_all_but_one:
  "i < length xs \<Longrightarrow>
   accepted xs ((replicate (length xs) None)[i := Some e]) = take i xs @ drop (Suc i) xs"
proof (induction xs arbitrary: i)
  case Nil
  then show ?case by simp
next
  case (Cons x xs)
  have all: "accepted ys (replicate (length ys) None) = ys" for ys :: "'a list"
    by (induction ys) auto
  show ?case
  proof (cases i)
    case 0
    then show ?thesis by (simp add: all)
  next
    case (Suc k)
    with Cons show ?thesis by simp
  qed
qed

lemma refusals_one:
  "i < n \<Longrightarrow> refusals ((replicate n None)[i := Some e]) = [e]"
proof (induction n arbitrary: i)
  case 0
  then show ?case by simp
next
  case (Suc n)
  have none: "refusals (replicate m None) = []" for m
    by (induction m) auto
  show ?case
  proof (cases i)
    case 0
    then show ?thesis by (simp add: none)
  next
    case (Suc k)
    with Suc.prems Suc.IH[of k] show ?thesis by simp
  qed
qed

subsection \<open>The request as a whole\<close>

text \<open>Once the original is stored, the request is the loop.\<close>

lemma ProcessAndUploadImage_stored:
  assumes "image_Decode lib fileBytes = Inr (img, format)"
    and "fst (s3_PutObject lib (original_request lib cfg timestamp fileBytes filename format) (s3 w)) = None"
  shows "ProcessAndUploadImage lib cfg timestamp fileBytes filename compressSizes w =
           (case process_specs lib cfg img format (fileNameWithoutExt (strings_ToLower lib) filename)
                   timestamp (fileExt (strings_ToLower lib) filename) compressSizes
                   \<lparr>OriginalImage =
                      \<lparr>ImageResult.Width = Bounds_Dx lib img, Height = Bounds_Dy lib img,
                       URL = object_URL cfg (PutObjectInput.Key
                               (original_request lib cfg timestamp fileBytes filename format))\<rparr>,
                    CompressedImages = Some [],
                    Message = ''Image uploaded and processed successfully''\<rparr>
                   (after_put lib (original_request lib cfg timestamp fileBytes filename format) w) of
              (None, w') \<Rightarrow> (None, w')
            | (Some response, w') \<Rightarrow> (Some (Inr response), w'))"
  using assms
  by (simp add: ProcessAndUploadImage_def UploadFile_eq original_request_def Let_def)

text \<open>A request that returns a response has decoded the image and stored the original.\<close>

lemma ProcessAndUploadImage_Inr:
  assumes "ProcessAndUploadImage lib cfg timestamp fileBytes filename compressSizes w
             = (Some (Inr response), w')"
  shows "\<exists>img format.
           image_Decode lib fileBytes = Inr (img, format) \<and>
           fst (s3_PutObject lib (original_request lib cfg timestamp fileBytes filename format) (s3 w))
             = None"
proof -
  from assms obtain img format where decode: "image_Decode lib fileBytes = Inr (img, format)"
    by (cases "image_Decode lib fileBytes") (auto simp: ProcessAndUploadImage_def)
  have "fst (s3_PutObject lib
               (original_request lib cfg timestamp fileBytes filename format) (s3 w)) = None"
  proof (rule ccontr)
    assume "fst (s3_PutObject lib
              (original_request lib cfg timestamp fileBytes filename format) (s3 w)) \<noteq> None"
    then obtain err where "fst (s3_PutObject lib
              (original_request lib cfg timestamp fileBytes filename format) (s3 w)) = Some err"
      by auto
    with decode assms show False
      by (simp add: ProcessAndUploadImage_def UploadFile_eq original_request_def Let_def)
  qed
  with decode show ?thesis by blast
qed

text \<open>
  C1: of N specs (N > 1), every one is resized and encoded, and the store accepts
  the put of every variant but the one at index \<open>i\<close>, which it refuses with
  \<open>err\<close>. Then the request returns a response; its variants are the entries of
  the other N - 1 specs, in the order of the specs; the put of every spec was sent,
  the ones after the refused one too; and the refusal was logged. The hypotheses
  are on the answers of the libraries: \<open>rasters\<close> and \<open>bufs\<close> are what the
  resizer and the encoder return for the specs, \<open>puts\<close> the put requests for these
  bytes, and the store answers them one after the other, starting in the state the
  put of the original left.
\<close>

theorem single_failed_upload_is_skipped:
  assumes decode: "image_Decode lib fileBytes = Inr (img, format)"
    and original: "fst (s3_PutObject lib
                     (original_request lib cfg timestamp fileBytes filename format) (s3 w)) = None"
    and base: "base = fileNameWithoutExt (strings_ToLower lib) filename"
    and ext: "ext = fileExt (strings_ToLower lib) filename"
    and several: "1 < length specs"
    and i: "i < length specs"
    and resized: "list_all2 (\<lambda>spec resized.
                    resize_Resize lib (word_of_int (CompressSpec.Width spec))
                      (word_of_int (CompressSpec.Height spec)) img = Some resized) specs rasters"
    and encoded: "list_all2 (\<lambda>resized buf.
                    (if format = ''jpeg'' then jpeg_Encode lib resized 85
                     else png_Encode lib resized) = Inr buf) rasters bufs"
    and puts: "puts = map2 (\<lambda>spec buf.
                    \<lparr>PutObjectInput.Bucket = BucketName cfg,
                     Key = compressedFileName base spec timestamp ext,
                     Body = buf, ContentType = getContentType format\<rparr>) specs bufs"
    and answers: "put_answers lib puts
                    (snd (s3_PutObject lib
                       (original_request lib cfg timestamp fileBytes filename format) (s3 w)))
                  = (replicate (length specs) None)[i := Some err]"
  shows "\<exists>response w'.
           ProcessAndUploadImage lib cfg timestamp fileBytes filename specs w
             = (Some (Inr response), w') \<and>
           CompressedImages response =
             Some (map (variant_result cfg base timestamp ext) (take i specs @ drop (Suc i) specs)) \<and>
           length (map (variant_result cfg base timestamp ext) (take i specs @ drop (Suc i) specs))
             = length specs - 1 \<and>
           requests w' = requests w @
             map PutObject (original_request lib cfg timestamp fileBytes filename format # puts) \<and>
           log_lines w' = log_lines w @ [''Failed to upload compressed image: '' @ err]"
proof -
  let ?orig = "original_request lib cfg timestamp fileBytes filename format"
  let ?w1 = "after_put lib ?orig w"
  let ?response = "\<lparr>OriginalImage =
                      \<lparr>ImageResult.Width = Bounds_Dx lib img, Height = Bounds_Dy lib img,
                       URL = object_URL cfg (PutObjectInput.Key ?orig)\<rparr>,
                    CompressedImages = Some [],
                    Message = ''Image uploaded and processed successfully''\<rparr>"
  let ?answers = "(replicate (length specs) None)[i := Some err]"
  let ?loop = "process_specs lib cfg img format base timestamp ext specs ?response ?w1"
  let ?R = "?response\<lparr>CompressedImages :=
              foldl append_slice (CompressedImages ?response)
                (accepted (map (variant_result cfg base timestamp ext) specs) ?answers)\<rparr>"
  let ?W = "?w1\<lparr>s3 := store_after lib puts (snd (s3_PutObject lib ?orig (s3 w))),
               requests := requests ?w1 @ map PutObject puts,
               log_lines := log_lines ?w1 @
                 map ((@) ''Failed to upload compressed image: '') (refusals ?answers)\<rparr>"
  have puts': "map2 (variant_put cfg format base timestamp ext) specs bufs = puts"
    by (simp add: puts variant_put_def)
  have store: "s3 ?w1 = snd (s3_PutObject lib ?orig (s3 w))"
    by (simp add: after_put_def)
  have loop: "?loop = (Some ?R, ?W)"
    using process_specs_encoded[OF resized encoded, of cfg base timestamp ext ?response ?w1]
    by (simp only: puts' store answers)
  have run: "ProcessAndUploadImage lib cfg timestamp fileBytes filename specs w
               = (Some (Inr ?R), ?W)"
    using loop
    by (simp only: ProcessAndUploadImage_stored[OF decode original] base[symmetric] ext[symmetric])
       simp
  have kept: "accepted (map (variant_result cfg base timestamp ext) specs) ?answers =
              map (variant_result cfg base timestamp ext) (take i specs @ drop (Suc i) specs)"
    using accepted_all_but_one[of i "map (variant_result cfg base timestamp ext) specs" err] i
    by (simp add: take_map drop_map)
  have logged: "refusals ?answers = [err]"
    using i by (rule refusals_one)
  have variants: "CompressedImages ?R =
      Some (map (variant_result cfg base timestamp ext) (take i specs @ drop (Suc i) specs))"
    by (simp only: kept) (simp add: foldl_append_slice)
  have count: "length (map (variant_result cfg base timestamp ext)
                         (take i specs @ drop (Suc i) specs)) = length specs - 1"
    using i by simp
  have sent: "requests ?W = requests w @ map PutObject (?orig # puts)"
    by (simp add: after_put_def)
  have lines: "log_lines ?W = log_lines w @ [''Failed to upload compressed image: '' @ err]"
    by (simp only: logged) (simp add: after_put_def)
  from run variants count sent lines show ?thesis
    by (intro exI[of _ ?R] exI[of _ ?W] conjI)
qed

text \<open>
  Three sizes are requested and the store refuses the key of the second: the
  response lists the first and the third, and four puts were sent.
\<close>

theorem single_failed_upload_is_skipped_witness:
  "image_Decode (demo_lib [''photo_400x300_1234567890.jpg'']) photo_jpg
     = Inr ((1920, 1080), ''jpeg'') \<and>
   (\<exists>response w'.
      ProcessAndUploadImage (demo_lib [''photo_400x300_1234567890.jpg'']) demo_cfg 1234567890
        photo_jpg ''photo.jpg'' [size_spec 800 600, size_spec 400 300, size_spec 200 150]
        empty_world = (Some (Inr response), w') \<and>
      CompressedImages response =
        Some [\<lparr>ImageResult.Width = 800, Height = 600,
               URL = ''https://images.s3.eu-west-1.amazonaws.com/photo_800x600_1234567890.jpg''\<rparr>,
              \<lparr>ImageResult.Width = 200, Height = 150,
               URL = ''https://images.s3.eu-west-1.amazonaws.com/photo_200x150_1234567890.jpg''\<rparr>] \<and>
      map request_key (requests w') =
        [''photo_1234567890.jpg'', ''photo_800x600_1234567890.jpg'',
         ''photo_400x300_1234567890.jpg'', ''photo_200x150_1234567890.jpg''] \<and>
      log_lines w' = [''Failed to upload compressed image: AccessDenied''])"
proof -
  let ?lib = "demo_lib [''photo_400x300_1234567890.jpg'']"
  let ?specs = "[size_spec 800 600, size_spec 400 300, size_spec 200 150]"
  let ?rasters = "[(800, 600), (400, 300), (200, 150)] :: raster list"
  let ?bufs = "map (\<lambda>r. [0xFF, 0xD8, word_of_int (fst r), word_of_int (snd r)]) ?rasters :: bytes list"
  let ?orig = "original_request ?lib demo_cfg 1234567890 photo_jpg ''photo.jpg'' ''jpeg''"
  let ?puts = "map2 (\<lambda>spec buf.
                    \<lparr>PutObjectInput.Bucket = BucketName demo_cfg,
                     Key = compressedFileName ''photo'' spec 1234567890 ''.jpg'',
                     Body = buf, ContentType = getContentType ''jpeg''\<rparr>) ?specs ?bufs"
  have decode: "image_Decode ?lib photo_jpg = Inr ((1920, 1080), ''jpeg'')"
    by code_simp
  have original: "fst (s3_PutObject ?lib ?orig (s3 empty_world)) = None"
    by code_simp
  have base: "''photo'' = fileNameWithoutExt (strings_ToLower ?lib) ''photo.jpg''"
    by code_simp
  have ext: "''.jpg'' = fileExt (strings_ToLower ?lib) ''photo.jpg''"
    by code_simp
  have several: "1 < length ?specs" and i: "1 < length ?specs"
    by simp_all
  have resized: "list_all2 (\<lambda>spec resized.
                    resize_Resize ?lib (word_of_int (CompressSpec.Width spec))
                      (word_of_int (CompressSpec.Height spec)) (1920, 1080) = Some resized)
                   ?specs ?rasters"
    by code_simp
  have encoded: "list_all2 (\<lambda>resized buf.
                    (if ''jpeg'' = ''jpeg'' then jpeg_Encode ?lib resized 85
                     else png_Encode ?lib resized) = Inr buf) ?rasters ?bufs"
    by code_simp
  have answers: "put_answers ?lib ?puts (snd (s3_PutObject ?lib ?orig (s3 empty_world)))
                  = (replicate (length ?specs) None)[1 := Some ''AccessDenied'']"
    by code_simp
  have variants: "map (variant_result demo_cfg ''photo'' 1234567890 ''.jpg'')
                    (take 1 ?specs @ drop (Suc 1) ?specs) =
      [\<lparr>ImageResult.Width = 800, Height = 600,
        URL = ''https://images.s3.eu-west-1.amazonaws.com/photo_800x600_1234567890.jpg''\<rparr>,
       \<lparr>ImageResult.Width = 200, Height = 150,
        URL = ''https://images.s3.eu-west-1.amazonaws.com/photo_200x150_1234567890.jpg''\<rparr>]"
    by code_simp
  have keys: "map request_key (requests empty_world @ map PutObject (?orig # ?puts)) =
      [''photo_1234567890.jpg'', ''photo_800x600_1234567890.jpg'',
       ''photo_400x300_1234567890.jpg'', ''photo_200x150_1234567890.jpg'']"
    by code_simp
  have lines: "log_lines empty_world @ [''Failed to upload compressed image: '' @ ''AccessDenied'']
                 = [''Failed to upload compressed image: AccessDenied'']"
    by code_simp
  from single_failed_upload_is_skipped[OF decode original base ext several i resized encoded
      refl answers]
  obtain response w' where
    run: "ProcessAndUploadImage ?lib demo_cfg 1234567890 photo_jpg ''photo.jpg'' ?specs empty_world
            = (Some (Inr response), w')"
    and kept: "CompressedImages response =
                 Some (map (variant_result demo_cfg ''photo'' 1234567890 ''.jpg'')
                        (take 1 ?specs @ drop (Suc 1) ?specs))"
    and sent: "requests w' = requests empty_world @ map PutObject (?orig # ?puts)"
    and logged: "log_lines w' =
                   log_lines empty_world @ [''Failed to upload compressed image: '' @ ''AccessDenied'']"
    by (elim exE conjE)
  have sent_keys: "map request_key (requests w') =
      [''photo_1234567890.jpg'', ''photo_800x600_1234567890.jpg'',
       ''photo_400x300_1234567890.jpg'', ''photo_200x150_1234567890.jpg'']"
    by (simp only: sent keys)
  show ?thesis
    using decode run kept[unfolded variants] sent_keys logged[unfolded lines]
    by (intro conjI exI)
qed

text \<open>
  C2: when the bytes do not decode, the request fails with the decoding error and
  the world is the one it started in: the store is unchanged, no request was sent
  to it and nothing was logged.
\<close>

theorem decode_failure_writes_nothing:
  assumes "image_Decode lib fileBytes = Inl err"
  shows "ProcessAndUploadImage lib cfg timestamp fileBytes filename compressSizes w =
           (Some (Inl (FailedToDecodeImage err)), w)"
  using assms by (simp add: ProcessAndUploadImage_def)

theorem decode_failure_writes_nothing_witness:
  "image_Decode (demo_lib []) [0x47, 0x49, 0x46] = Inl ''image: unknown format'' \<and>
   ProcessAndUploadImage (demo_lib []) demo_cfg 1234567890 [0x47, 0x49, 0x46] ''anim.gif''
     [size_spec 800 600] empty_world =
     (Some (Inl (FailedToDecodeImage ''image: unknown format'')), empty_world)"
proof -
  have decode: "image_Decode (demo_lib []) [0x47, 0x49, 0x46] = Inl ''image: unknown format''"
    by code_simp
  show ?thesis
    using decode decode_failure_writes_nothing[OF decode] by simp
qed

text \<open>
  C3: when the image decodes and the put of the original is refused, the request
  fails with the upload error of the original. The world it leaves is the one after
  that single put: whatever the list of specs, the only request sent to the store
  is the one for the original, and no round of the loop has run (no variant is
  resized, encoded or uploaded, and nothing is logged).
\<close>

theorem original_upload_failure_stops_request:
  assumes "image_Decode lib fileBytes = Inr (img, format)"
    and "fst (s3_PutObject lib (original_request lib cfg timestamp fileBytes filename format) (s3 w))
           = Some err"
  shows "ProcessAndUploadImage lib cfg timestamp fileBytes filename compressSizes w =
           (Some (Inl (FailedToUploadOriginalImage err)),
            after_put lib (original_request lib cfg timestamp fileBytes filename format) w) \<and>
         requests (after_put lib (original_request lib cfg timestamp fileBytes filename format) w) =
           requests w @ [PutObject (original_request lib cfg timestamp fileBytes filename format)] \<and>
         log_lines (after_put lib (original_request lib cfg timestamp fileBytes filename format) w) =
           log_lines w"
  using assms
  by (simp add: ProcessAndUploadImage_def UploadFile_eq original_request_def Let_def after_put_def)

theorem original_upload_failure_stops_request_witness:
  "image_Decode (demo_lib [''photo_1234567890.jpg'']) photo_jpg = Inr ((1920, 1080), ''jpeg'') \<and>
   fst (ProcessAndUploadImage (demo_lib [''photo_1234567890.jpg'']) demo_cfg 1234567890 photo_jpg
     ''photo.jpg'' [size_spec 800 600, size_spec 400 300] empty_world) =
     Some (Inl (FailedToUploadOriginalImage ''AccessDenied''))"
proof -
  have decode: "image_Decode (demo_lib [''photo_1234567890.jpg'']) photo_jpg
                  = Inr ((1920, 1080), ''jpeg'')"
    by code_simp
  have put: "fst (s3_PutObject (demo_lib [''photo_1234567890.jpg''])
               (original_request (demo_lib [''photo_1234567890.jpg'']) demo_cfg 1234567890
                  photo_jpg ''photo.jpg'' ''jpeg'')
               (s3 empty_world)) = Some ''AccessDenied''"
    by code_simp
  show ?thesis
    using decode original_upload_failure_stops_request[OF decode put] by simp
qed

text \<open>
  C4: for bytes that decode, every response the request returns has an original
  with the width and the height of the bounds of the decoded raster, whatever the
  specs are. The request returns a response exactly when the store accepts the
  original and the resizer returns for every spec; where the resizer panics, as it
  does for a negative width or height, the request does not return.
\<close>

theorem original_bounds_are_decoded_bounds:
  assumes decode: "image_Decode lib fileBytes = Inr (img, format)"
  shows "(\<forall>response w'.
            ProcessAndUploadImage lib cfg timestamp fileBytes filename compressSizes w
              = (Some (Inr response), w') \<longrightarrow>
            ImageResult.Width (OriginalImage response) = Bounds_Dx lib img \<and>
            ImageResult.Height (OriginalImage response) = Bounds_Dy lib img) \<and>
         ((\<exists>response w'.
             ProcessAndUploadImage lib cfg timestamp fileBytes filename compressSizes w
               = (Some (Inr response), w')) \<longleftrightarrow>
          fst (s3_PutObject lib (original_request lib cfg timestamp fileBytes filename format) (s3 w))
            = None \<and>
          (\<forall>spec \<in> set compressSizes.
             resize_Resize lib (word_of_int (CompressSpec.Width spec))
               (word_of_int (CompressSpec.Height spec)) img \<noteq> None))"
proof -
  let ?orig = "original_request lib cfg timestamp fileBytes filename format"
  let ?response = "\<lparr>OriginalImage =
                      \<lparr>ImageResult.Width = Bounds_Dx lib img, Height = Bounds_Dy lib img,
                       URL = object_URL cfg (PutObjectInput.Key ?orig)\<rparr>,
                    CompressedImages = Some [],
                    Message = ''Image uploaded and processed successfully''\<rparr>"
  let ?loop = "process_specs lib cfg img format (fileNameWithoutExt (strings_ToLower lib) filename)
                 timestamp (fileExt (strings_ToLower lib) filename) compressSizes ?response
                 (after_put lib ?orig w)"
  have stored: "fst (s3_PutObject lib ?orig (s3 w)) = None \<and> ?loop = (Some response, w')"
    if "ProcessAndUploadImage lib cfg timestamp fileBytes filename compressSizes w
          = (Some (Inr response), w')" for response w'
  proof -
    from ProcessAndUploadImage_Inr[OF that] decode
    have original: "fst (s3_PutObject lib ?orig (s3 w)) = None"
      by auto
    from that have "?loop = (Some response, w')"
      by (simp add: ProcessAndUploadImage_stored[OF decode original]
          split: prod.splits option.splits)
    with original show ?thesis by simp
  qed
  have bounds: "ImageResult.Width (OriginalImage response) = Bounds_Dx lib img \<and>
                ImageResult.Height (OriginalImage response) = Bounds_Dy lib img"
    if "ProcessAndUploadImage lib cfg timestamp fileBytes filename compressSizes w
          = (Some (Inr response), w')" for response w'
  proof -
    from stored[OF that] have "?loop = (Some response, w')" by simp
    from process_specs_run[OF this] obtain new where
      "response = ?response\<lparr>CompressedImages :=
                     foldl append_slice (CompressedImages ?response) new\<rparr>"
      by blast
    then have "OriginalImage response = OriginalImage ?response"
      by simp
    then show ?thesis by simp
  qed
  have returns: "(\<exists>response w'.
             ProcessAndUploadImage lib cfg timestamp fileBytes filename compressSizes w
               = (Some (Inr response), w')) \<longleftrightarrow>
          fst (s3_PutObject lib ?orig (s3 w)) = None \<and>
          (\<forall>spec \<in> set compressSizes.
             resize_Resize lib (word_of_int (CompressSpec.Width spec))
               (word_of_int (CompressSpec.Height spec)) img \<noteq> None)"
  proof
    assume "\<exists>response w'.
             ProcessAndUploadImage lib cfg timestamp fileBytes filename compressSizes w
               = (Some (Inr response), w')"
    then obtain response w' where
      "ProcessAndUploadImage lib cfg timestamp fileBytes filename compressSizes w
         = (Some (Inr response), w')"
      by blast
    from stored[OF this] have original: "fst (s3_PutObject lib ?orig (s3 w)) = None"
      and "fst ?loop \<noteq> None"
      by simp_all
    then show "fst (s3_PutObject lib ?orig (s3 w)) = None \<and>
          (\<forall>spec \<in> set compressSizes.
             resize_Resize lib (word_of_int (CompressSpec.Width spec))
               (word_of_int (CompressSpec.Height spec)) img \<noteq> None)"
      by (simp only: process_specs_returns)
  next
    assume ok: "fst (s3_PutObject lib ?orig (s3 w)) = None \<and>
          (\<forall>spec \<in> set compressSizes.
             resize_Resize lib (word_of_int (CompressSpec.Width spec))
               (word_of_int (CompressSpec.Height spec)) img \<noteq> None)"
    then have "fst ?loop \<noteq> None"
      by (simp only: process_specs_returns) simp
    then obtain response w' where "?loop = (Some response, w')"
      by (cases ?loop) auto
    then show "\<exists>response w'.
             ProcessAndUploadImage lib cfg timestamp fileBytes filename compressSizes w
               = (Some (Inr response), w')"
      using ok by (simp add: ProcessAndUploadImage_stored[OF decode])
  qed
  from bounds returns show ?thesis by blast
qed

theorem original_bounds_are_decoded_bounds_witness:
  "image_Decode (demo_lib []) photo_jpg = Inr ((1920, 1080), ''jpeg'') \<and>
   (\<exists>response w'.
      ProcessAndUploadImage (demo_lib []) demo_cfg 1234567890 photo_jpg ''photo.jpg''
        [size_spec 800 600, size_spec 400 300] empty_world = (Some (Inr response), w') \<and>
      ImageResult.Width (OriginalImage response) = 1920 \<and>
      ImageResult.Height (OriginalImage response) = 1080) \<and>
   \<not> (\<exists>response w'.
      ProcessAndUploadImage (demo_lib []) demo_cfg 1234567890 photo_jpg ''photo.jpg''
        [size_spec (- 1) 600] empty_world = (Some (Inr response), w'))"
proof -
  let ?specs = "[size_spec 800 600, size_spec 400 300]"
  have decode: "image_Decode (demo_lib []) photo_jpg = Inr ((1920, 1080), ''jpeg'')"
    by code_simp
  have ok: "fst (s3_PutObject (demo_lib [])
               (original_request (demo_lib []) demo_cfg 1234567890 photo_jpg ''photo.jpg'' ''jpeg'')
               (s3 empty_world)) = None \<and>
            (\<forall>spec \<in> set ?specs.
               resize_Resize (demo_lib []) (word_of_int (CompressSpec.Width spec))
                 (word_of_int (CompressSpec.Height spec)) (1920, 1080) \<noteq> None)"
    by code_simp
  have panics: "\<not> (fst (s3_PutObject (demo_lib [])
               (original_request (demo_lib []) demo_cfg 1234567890 photo_jpg ''photo.jpg'' ''jpeg'')
               (s3 empty_world)) = None \<and>
            (\<forall>spec \<in> set [size_spec (- 1) 600].
               resize_Resize (demo_lib []) (word_of_int (CompressSpec.Width spec))
                 (word_of_int (CompressSpec.Height spec)) (1920, 1080) \<noteq> None))"
    by code_simp
  have dx: "Bounds_Dx (demo_lib []) (1920, 1080) = 1920"
    and dy: "Bounds_Dy (demo_lib []) (1920, 1080) = 1080"
    by code_simp+
  note inst = original_bounds_are_decoded_bounds[OF decode, of demo_cfg 1234567890 "''photo.jpg''" _
      empty_world]
  from inst[of ?specs, THEN conjunct2] ok
  obtain response w' where
    run: "ProcessAndUploadImage (demo_lib []) demo_cfg 1234567890 photo_jpg ''photo.jpg''
            ?specs empty_world = (Some (Inr response), w')"
    by blast
  from inst[of ?specs, THEN conjunct1, rule_format, OF run]
  have "ImageResult.Width (OriginalImage response) = 1920"
    and "ImageResult.Height (OriginalImage response) = 1080"
    by (simp_all only: dx dy)
  with run have first: "\<exists>response w'.
      ProcessAndUploadImage (demo_lib []) demo_cfg 1234567890 photo_jpg ''photo.jpg''
        ?specs empty_world = (Some (Inr response), w') \<and>
      ImageResult.Width (OriginalImage response) = 1920 \<and>
      ImageResult.Height (OriginalImage response) = 1080"
    by blast
  from inst[of "[size_spec (- 1) 600]", THEN conjunct2] panics
  have "\<not> (\<exists>response w'.
      ProcessAndUploadImage (demo_lib []) demo_cfg 1234567890 photo_jpg ''photo.jpg''
        [size_spec (- 1) 600] empty_world = (Some (Inr response), w'))"
    by blast
  with decode first show ?thesis by (intro conjI)
qed

text \<open>
  C9: with an empty list of specs, a decodable image and a successful upload of the
  original, the request returns a response whose variants are the empty slice (not
  the nil one) and whose original carries the bounds and the URL; the only request
  sent to the store is the put of the original.
\<close>

theorem empty_spec_list_stores_original_only:
  assumes "image_Decode lib fileBytes = Inr (img, format)"
    and "fst (s3_PutObject lib (original_request lib cfg timestamp fileBytes filename format) (s3 w))
           = None"
  shows "ProcessAndUploadImage lib cfg timestamp fileBytes filename [] w =
           (Some (Inr \<lparr>OriginalImage =
                   \<lparr>ImageResult.Width = Bounds_Dx lib img, Height = Bounds_Dy lib img,
                    URL = object_URL cfg (PutObjectInput.Key
                            (original_request lib cfg timestamp fileBytes filename format))\<rparr>,
                 CompressedImages = Some [],
                 Message = ''Image uploaded and processed successfully''\<rparr>),
            after_put lib (original_request lib cfg timestamp fileBytes filename format) w) \<and>
         requests (after_put lib (original_request lib cfg timestamp fileBytes filename format) w) =
           requests w @ [PutObject (original_request lib cfg timestamp fileBytes filename format)]"
  by (simp add: ProcessAndUploadImage_stored[OF assms] after_put_def)

theorem empty_spec_list_stores_original_only_witness:
  "image_Decode (demo_lib []) photo_jpg = Inr ((1920, 1080), ''jpeg'') \<and>
   fst (ProcessAndUploadImage (demo_lib []) demo_cfg 1234567890 photo_jpg ''photo.jpg'' []
          empty_world) =
     Some (Inr \<lparr>OriginalImage =
            \<lparr>ImageResult.Width = 1920, Height = 1080,
             URL = ''https://images.s3.eu-west-1.amazonaws.com/photo_1234567890.jpg''\<rparr>,
          CompressedImages = Some [],
          Message = ''Image uploaded and processed successfully''\<rparr>)"
proof -
  have decode: "image_Decode (demo_lib []) photo_jpg = Inr ((1920, 1080), ''jpeg'')"
    by code_simp
  have put: "fst (s3_PutObject (demo_lib [])
               (original_request (demo_lib []) demo_cfg 1234567890 photo_jpg ''photo.jpg'' ''jpeg'')
               (s3 empty_world)) = None"
    by code_simp
  have dx: "Bounds_Dx (demo_lib []) (1920, 1080) = 1920"
    and dy: "Bounds_Dy (demo_lib []) (1920, 1080) = 1080"
    and url: "object_URL demo_cfg (PutObjectInput.Key
               (original_request (demo_lib []) demo_cfg 1234567890 photo_jpg ''photo.jpg'' ''jpeg''))
              = ''https://images.s3.eu-west-1.amazonaws.com/photo_1234567890.jpg''"
    by code_simp+
  show ?thesis
    using decode conjunct1[OF empty_spec_list_stores_original_only[OF decode put]]
    by (simp only: dx dy url fst_conv)
qed

subsection \<open>Digits and numerals\<close>

lemma digit_not_special:
  "is_digit c \<Longrightarrow> c \<noteq> CHR ''x'' \<and> c \<noteq> CHR ''+'' \<and> c \<noteq> CHR ''-'' \<and> c \<noteq> CHR 0x0A"
  by (auto simp: is_digit_def)

lemma digit_value_range: "is_digit c \<Longrightarrow> 0 \<le> (of_char c :: int) - 48 \<and> (of_char c :: int) - 48 \<le> 9"
  by (auto simp: is_digit_def)

lemma space_encodings_start:
  "list_all (\<lambda>enc. enc \<noteq> [] \<and> \<not> is_digit (hd enc)) space_encodings"
  by (simp add: space_encodings_def is_digit_def)

lemma digit_no_space:
  assumes "is_digit c"
  shows "isSpace_prefix (c # cs) = 0"
proof -
  have "\<not> (\<exists>enc \<in> set space_encodings. take (length enc) (c # cs) = enc)"
  proof
    assume "\<exists>enc \<in> set space_encodings. take (length enc) (c # cs) = enc"
    then obtain enc where enc: "enc \<in> set space_encodings" and eq: "take (length enc) (c # cs) = enc"
      by blast
    from enc space_encodings_start have "enc \<noteq> []" and "\<not> is_digit (hd enc)"
      by (auto simp: list_all_iff)
    moreover from eq \<open>enc \<noteq> []\<close> have "hd enc = c"
      by (cases enc) auto
    ultimately show False using assms by simp
  qed
  then have "find (\<lambda>enc. take (length enc) (c # cs) = enc) space_encodings = None"
    by (simp add: find_None_iff)
  then show ?thesis by (simp add: isSpace_prefix_def)
qed

lemma SkipSpace_digit: "is_digit c \<Longrightarrow> SkipSpace (c # cs) = Some (c # cs)"
  using digit_not_special[of c] by (subst SkipSpace.simps) (simp add: digit_no_space)

lemma foldl_digits_nonneg:
  "list_all is_digit ds \<Longrightarrow> 0 \<le> acc \<Longrightarrow>
   0 \<le> foldl (\<lambda>acc c. 10 * acc + (of_char c - 48)) (acc :: int) ds"
proof (induction ds arbitrary: acc)
  case Nil
  then show ?case by simp
next
  case (Cons c ds)
  then have "0 \<le> 10 * acc + (of_char c - 48)"
    using digit_value_range[of c] by simp
  with Cons show ?case by simp
qed

lemma dec_value_nonneg: "list_all is_digit ds \<Longrightarrow> 0 \<le> dec_value ds"
  by (simp add: dec_value_def foldl_digits_nonneg)

lemma takeWhile_digits:
  "list_all is_digit a \<Longrightarrow> t = [] \<or> \<not> is_digit (hd t) \<Longrightarrow> takeWhile is_digit (a @ t) = a"
  by (induction a) (auto simp: takeWhile_eq_Nil_iff neq_Nil_conv)

lemma ParseInt_decimal:
  assumes "is_decimal a" and "dec_value a < 2 ^ 63"
  shows "ParseInt a = Some (dec_value a)"
proof -
  from assms(1) obtain c cs where a: "a = c # cs" and c: "is_digit c"
    by (cases a) (auto simp: is_decimal_def)
  have "0 \<le> dec_value a"
    using assms(1) by (simp add: is_decimal_def dec_value_nonneg)
  then show ?thesis
    using assms(2) digit_not_special[OF c] by (simp add: ParseInt_def a)
qed

lemma Split_no_sep: "sep \<notin> set a \<Longrightarrow> Split a sep = [a]"
  by (induction a) (auto simp: Let_def)

lemma Split_at_sep: "sep \<notin> set a \<Longrightarrow> Split (a @ sep # b) sep = a # Split b sep"
  by (induction a) (auto simp: Let_def)

lemma length_Split: "length (Split s sep) = Suc (count_list s sep)"
  by (induction s) (auto simp: Let_def)

lemma Split_not_Nil [simp]: "Split s sep \<noteq> []"
  using length_Split[of s sep] by auto

lemma decimal_no_x: "list_all is_digit a \<Longrightarrow> CHR ''x'' \<notin> set a"
  using digit_not_special by (auto simp: list_all_iff)

lemma digit_char_is_digit: "d < 10 \<Longrightarrow> is_digit (digit_char d)"
proof -
  assume "d < 10"
  then have "nat d < length ''0123456789''" by simp
  then have "''0123456789'' ! nat d \<in> set ''0123456789''" by (rule nth_mem)
  then show ?thesis by (simp only: digit_char_def is_digit_def)
qed

lemma digit_char_value: "0 \<le> d \<Longrightarrow> d < 10 \<Longrightarrow> (of_char (digit_char d) :: int) - 48 = d"
proof -
  assume "0 \<le> d" "d < 10"
  then have "d = 0 \<or> d = 1 \<or> d = 2 \<or> d = 3 \<or> d = 4 \<or> d = 5 \<or> d = 6 \<or> d = 7 \<or> d = 8 \<or> d = 9"
    by arith
  then show ?thesis
    by (elim disjE) (simp_all add: digit_char_def)
qed

lemma format_uint_digits: "list_all is_digit (format_uint n) \<and> format_uint n \<noteq> []"
proof (induction n rule: format_uint.induct)
  case (1 n)
  show ?case
  proof (cases "n < 10")
    case True
    then show ?thesis
      by (subst (1 2) format_uint.simps) (simp add: digit_char_is_digit)
  next
    case False
    have "n mod 10 < 10" by simp
    with False 1 show ?thesis
      by (subst (1 2) format_uint.simps) (simp add: digit_char_is_digit)
  qed
qed

lemma dec_value_snoc: "dec_value (ds @ [c]) = 10 * dec_value ds + (of_char c - 48)"
  by (simp add: dec_value_def)

lemma dec_value_format_uint: "0 \<le> n \<Longrightarrow> dec_value (format_uint n) = n"
proof (induction n rule: format_uint.induct)
  case (1 n)
  show ?case
  proof (cases "n < 10")
    case True
    with 1(2) show ?thesis
      by (subst format_uint.simps) (simp add: dec_value_def digit_char_value)
  next
    case False
    then have "dec_value (format_uint (n div 10)) = n div 10"
      using 1 by simp
    moreover have "(of_char (digit_char (n mod 10)) :: int) - 48 = n mod 10"
      by (simp add: digit_char_value)
    ultimately show ?thesis
      using False by (subst format_uint.simps) (simp add: dec_value_snoc)
  qed
qed

lemma Sprintf_d_chars: "set (Sprintf_d i) \<subseteq> insert (CHR ''-'') {c. is_digit c}"
  using format_uint_digits by (auto simp: Sprintf_d_def list_all_iff)

lemma Sprintf_d_no_x: "CHR ''x'' \<notin> set (Sprintf_d i)"
  using Sprintf_d_chars[of i] digit_not_special by auto

lemma Sprintf_d_inj: "Sprintf_d i = Sprintf_d j \<Longrightarrow> i = j"
proof -
  assume eq: "Sprintf_d i = Sprintf_d j"
  have head: "hd (format_uint n) \<noteq> CHR ''-''" for n
    using format_uint_digits[of n] digit_not_special[of "hd (format_uint n)"]
    by (cases "format_uint n") auto
  have neg: "i < 0 \<longleftrightarrow> j < 0"
  proof (rule ccontr)
    assume "\<not> (i < 0 \<longleftrightarrow> j < 0)"
    then consider "i < 0" "\<not> j < 0" | "\<not> i < 0" "j < 0" by blast
    then show False
    proof cases
      case 1
      with eq have "format_uint j = CHR ''-'' # format_uint (- i)"
        by (simp add: Sprintf_d_def)
      with head[of j] show False by simp
    next
      case 2
      with eq have "format_uint i = CHR ''-'' # format_uint (- j)"
        by (simp add: Sprintf_d_def)
      with head[of i] show False by simp
    qed
  qed
  show "i = j"
  proof (cases "i < 0")
    case True
    with neg eq have "format_uint (- i) = format_uint (- j)"
      by (simp add: Sprintf_d_def)
    then have "dec_value (format_uint (- i)) = dec_value (format_uint (- j))" by simp
    with True neg show ?thesis by (simp add: dec_value_format_uint)
  next
    case False
    with neg eq have "format_uint i = format_uint j"
      by (simp add: Sprintf_d_def)
    then have "dec_value (format_uint i) = dec_value (format_uint j)" by simp
    with False neg show ?thesis by (simp add: dec_value_format_uint)
  qed
qed

lemma first_separator_splits:
  "x \<notin> set xs \<Longrightarrow> x \<notin> set xs' \<Longrightarrow> xs @ x # ys = xs' @ x # ys' \<Longrightarrow>
   xs = xs' \<and> ys = ys'"
proof (induction xs arbitrary: xs')
  case Nil
  then show ?case by (cases xs') auto
next
  case (Cons a xs)
  then show ?case by (cases xs') auto
qed

subsection \<open>Storage keys\<close>

text \<open>
  The extension is a suffix of the filename, so a filename whose extension is
  already in lower case is the basename followed by the extension.
\<close>

lemma Ext_scan_suffix: "\<exists>pre. rev front @ seen = pre @ Ext_scan front seen"
proof (induction front arbitrary: seen)
  case Nil
  then show ?case by simp
next
  case (Cons c front)
  from Cons.IH[of "c # seen"] show ?case by auto
qed

lemma Ext_suffix: "\<exists>pre. path = pre @ Ext path"
  using Ext_scan_suffix[of "rev path" "[]"] by (simp add: Ext_def)

lemma lower_case_extension_is_stripped:
  assumes "ToLower (Ext filename) = Ext filename"
  shows "fileNameWithoutExt ToLower filename @ fileExt ToLower filename = filename"
proof -
  obtain pre where split: "filename = pre @ Ext filename"
    using Ext_suffix by blast
  then have "length filename = length pre + length (Ext filename)"
    by (metis length_append)
  then have "HasSuffix filename (Ext filename)"
    and "take (length filename - length (Ext filename)) filename = pre"
    using split by (simp_all add: HasSuffix_def) (metis append_eq_conv_conj)+
  then show ?thesis
    using split assms by (simp add: fileNameWithoutExt_def fileExt_def TrimSuffix_def)
qed

text \<open>
  C5: the key of the original is \<^verbatim>\<open><basename>_<timestamp><ext>\<close> and the key of
  a spec is \<^verbatim>\<open><basename>_<w>x<h>_<timestamp><ext>\<close>, with one timestamp for the
  whole request and the extension in lower case. The basename is meant to be the
  filename without its extension, but the code trims the lower-cased extension off
  the filename as it was given, so an extension with an upper-case letter is not
  removed. For \<^verbatim>\<open>photo.JPG\<close>, which the upload handler accepts, the basename stays
  \<^verbatim>\<open>photo.JPG\<close> and the keys are \<^verbatim>\<open>photo.JPG_1234567890.jpg\<close> and
  \<^verbatim>\<open>photo.JPG_800x600_1234567890.jpg\<close>.
\<close>

theorem uppercase_extension_is_not_stripped:
  "fileExt ascii_ToLower ''photo.JPG'' = ''.jpg'' \<and>
   fileNameWithoutExt ascii_ToLower ''photo.JPG'' = ''photo.JPG'' \<and>
   map request_key (requests (snd (ProcessAndUploadImage (demo_lib []) demo_cfg 1234567890
      photo_jpg ''photo.JPG'' [size_spec 800 600] empty_world))) =
     [''photo.JPG_1234567890.jpg'', ''photo.JPG_800x600_1234567890.jpg'']"
  by code_simp

text \<open>
  C6 as stated, two occurrences of one size get two stored artifacts with distinct
  keys, fails: for the specs 800x600 and 800x600 both puts go to the same key, and
  the response lists the same URL twice.
\<close>

theorem duplicate_specs_share_one_key:
  "map request_key (requests (snd (ProcessAndUploadImage (demo_lib []) demo_cfg 1234567890
      photo_jpg ''photo.jpg'' [size_spec 800 600, size_spec 800 600] empty_world))) =
     [''photo_1234567890.jpg'', ''photo_800x600_1234567890.jpg'', ''photo_800x600_1234567890.jpg''] \<and>
   \<not> distinct (map request_key (requests (snd (ProcessAndUploadImage (demo_lib []) demo_cfg
      1234567890 photo_jpg ''photo.jpg'' [size_spec 800 600, size_spec 800 600] empty_world)))) \<and>
   map_option (map_sum id (map_option (map URL) \<circ> CompressedImages))
     (fst (ProcessAndUploadImage (demo_lib []) demo_cfg 1234567890
        photo_jpg ''photo.jpg'' [size_spec 800 600, size_spec 800 600] empty_world)) =
     Some (Inr (Some [''https://images.s3.eu-west-1.amazonaws.com/photo_800x600_1234567890.jpg'',
                      ''https://images.s3.eu-west-1.amazonaws.com/photo_800x600_1234567890.jpg'']))"
  by code_simp

text \<open>
  C6, amended: within one request, the keys of two specs are equal exactly when the
  specs have the same width and the same height. Two occurrences of one size share
  their key; two different sizes never do.
\<close>

theorem variant_keys_equal_iff_sizes_equal:
  "compressedFileName base spec1 timestamp ext = compressedFileName base spec2 timestamp ext \<longleftrightarrow>
     CompressSpec.Width spec1 = CompressSpec.Width spec2 \<and>
     CompressSpec.Height spec1 = CompressSpec.Height spec2"
proof
  assume "compressedFileName base spec1 timestamp ext = compressedFileName base spec2 timestamp ext"
  then have "Sprintf_d (CompressSpec.Width spec1) @ CHR ''x'' #
               (Sprintf_d (CompressSpec.Height spec1) @ CHR ''_'' # Sprintf_d timestamp @ ext) =
             Sprintf_d (CompressSpec.Width spec2) @ CHR ''x'' #
               (Sprintf_d (CompressSpec.Height spec2) @ CHR ''_'' # Sprintf_d timestamp @ ext)"
    by (simp add: compressedFileName_def)
  then have "Sprintf_d (CompressSpec.Width spec1) = Sprintf_d (CompressSpec.Width spec2) \<and>
             Sprintf_d (CompressSpec.Height spec1) @ CHR ''_'' # Sprintf_d timestamp @ ext =
             Sprintf_d (CompressSpec.Height spec2) @ CHR ''_'' # Sprintf_d timestamp @ ext"
    by (rule first_separator_splits[OF Sprintf_d_no_x Sprintf_d_no_x])
  then show "CompressSpec.Width spec1 = CompressSpec.Width spec2 \<and>
             CompressSpec.Height spec1 = CompressSpec.Height spec2"
    by (auto dest: Sprintf_d_inj)
next
  assume "CompressSpec.Width spec1 = CompressSpec.Width spec2 \<and>
          CompressSpec.Height spec1 = CompressSpec.Height spec2"
  then show "compressedFileName base spec1 timestamp ext = compressedFileName base spec2 timestamp ext"
    by (simp add: compressedFileName_def)
qed

subsection \<open>The entries of the variants\<close>




subsection \<open>Leading space and leading numerals\<close>

lemma space_encodings_prefix_free:
  "list_all (\<lambda>enc. enc \<noteq> [] \<and> (\<forall>u. isSpace_prefix (enc @ u) = length enc)) space_encodings"
  by (simp add: space_encodings_def isSpace_prefix_def)

lemma space_encoding_found:
  "enc \<in> set space_encodings \<Longrightarrow> isSpace_prefix (enc @ u) = length enc \<and> enc \<noteq> []"
  using space_encodings_prefix_free by (simp add: list_all_iff)

lemma space_encodings_newline:
  "list_all (\<lambda>enc. enc \<noteq> [CHR 0x0A] \<longrightarrow> hd enc \<noteq> CHR 0x0A) space_encodings"
  by (simp add: space_encodings_def)

lemma space_encoding_hd:
  "enc \<in> set space_encodings \<Longrightarrow> enc \<noteq> [CHR 0x0A] \<Longrightarrow> hd enc \<noteq> CHR 0x0A"
  using space_encodings_newline by (simp add: list_all_iff)

lemma plus_no_space: "isSpace_prefix (CHR ''+'' # cs) = 0"
  by (simp add: isSpace_prefix_def space_encodings_def)

lemma isSpace_prefix_encoding:
  assumes "isSpace_prefix s \<noteq> 0"
  shows "\<exists>enc \<in> set space_encodings. s = enc @ drop (isSpace_prefix s) s"
proof -
  from assms obtain enc where
    found: "find (\<lambda>enc. take (length enc) s = enc) space_encodings = Some enc"
    by (auto simp: isSpace_prefix_def split: option.splits)
  then have enc: "enc \<in> set space_encodings" and eq: "take (length enc) s = enc"
    by (auto simp: find_Some_iff)
  have "s = take (length enc) s @ drop (length enc) s"
    by simp
  with eq have "s = enc @ drop (length enc) s"
    by simp
  moreover have "isSpace_prefix s = length enc"
    by (simp add: isSpace_prefix_def found)
  ultimately show ?thesis
    using enc by auto
qed

lemma SkipSpace_blank:
  assumes "blank sp" and "t = [] \<or> hd t \<noteq> CHR 0x0A \<and> isSpace_prefix t = 0"
  shows "SkipSpace (sp @ t) = Some t"
  using assms
proof (induction rule: blank.induct)
  case blank_Nil
  then show ?case
    by (subst SkipSpace.simps) auto
next
  case (blank_space enc s)
  from space_encoding_found[OF blank_space.hyps(1), of "s @ t"]
  have len: "isSpace_prefix (enc @ s @ t) = length enc" and ne: "enc \<noteq> []"
    by simp_all
  from space_encoding_hd[OF blank_space.hyps(1,2)] ne
  have hd: "hd (enc @ s @ t) \<noteq> CHR 0x0A"
    by simp
  have "SkipSpace (enc @ s @ t) = SkipSpace (s @ t)"
    using ne hd by (subst SkipSpace.simps) (simp add: len)
  with blank_space.IH[OF blank_space.prems] show ?case
    by simp
qed

lemma SkipSpace_Some:
  "SkipSpace s = Some s' \<Longrightarrow> \<exists>sp. s = sp @ s' \<and> blank sp"
proof (induction s rule: SkipSpace.induct)
  case (1 s)
  show ?case
  proof (cases "s = [] \<or> isSpace_prefix s = 0")
    case True
    with "1.prems" have "s' = s"
      by (subst (asm) SkipSpace.simps) (auto split: if_splits)
    then show ?thesis
      using blank_Nil by auto
  next
    case False
    with "1.prems" have nl: "hd s \<noteq> CHR 0x0A"
      and rest: "SkipSpace (drop (isSpace_prefix s) s) = Some s'"
      by (subst (asm) SkipSpace.simps, auto split: if_splits)+
    from False nl rest "1.IH" obtain sp where
      sp: "drop (isSpace_prefix s) s = sp @ s'" and blank: "blank sp"
      by auto
    from False isSpace_prefix_encoding[of s] obtain enc where
      enc: "enc \<in> set space_encodings" and s: "s = enc @ drop (isSpace_prefix s) s"
      by auto
    from space_encoding_found[OF enc] have "enc \<noteq> []"
      by simp
    with s have "hd s = hd enc"
      by (metis hd_append2)
    with nl have "enc \<noteq> [CHR 0x0A]"
      by auto
    with enc blank have "blank (enc @ sp)"
      by (intro blank_space)
    moreover from s sp have "s = (enc @ sp) @ s'"
      by simp
    ultimately show ?thesis
      by blast
  qed
qed

text \<open>A piece with a leading numeral that fits 64 bits scans to that numeral.\<close>

lemma Sscanf_d_leading_numeral:
  assumes "leading_numeral piece n" and "n < 2 ^ 63"
  shows "Sscanf_d piece = Some n"
proof -
  from assms(1) obtain sp sign ds rest where
    piece: "piece = sp @ sign @ ds @ rest" and sp: "blank sp"
    and sign: "sign = [] \<or> sign = ''+''" and ds: "is_decimal ds"
    and rest: "rest = [] \<or> \<not> is_digit (hd rest)" and n: "n = dec_value ds"
    unfolding leading_numeral_def by blast
  from ds obtain c cs where c: "ds = c # cs" "is_digit c"
    by (cases ds) (auto simp: is_decimal_def)
  have digits: "takeWhile is_digit (ds @ rest) = ds"
    using ds rest by (simp add: is_decimal_def takeWhile_digits)
  have nonneg: "0 \<le> dec_value ds"
    using ds by (simp add: is_decimal_def dec_value_nonneg)
  from sign show ?thesis
  proof
    assume none: "sign = []"
    have skip: "SkipSpace (sp @ ds @ rest) = Some (ds @ rest)"
      using digit_not_special[OF c(2)]
      by (intro SkipSpace_blank[OF sp]) (simp add: c digit_no_space)
    have parse: "ParseInt ds = Some (dec_value ds)"
      using assms(2) by (intro ParseInt_decimal[OF ds]) (simp add: n)
    have hd: "hd (ds @ rest) \<noteq> CHR ''+''" "hd (ds @ rest) \<noteq> CHR ''-''" and ne: "ds \<noteq> []"
      using digit_not_special[OF c(2)] by (simp_all add: c(1))
    then show ?thesis
      by (simp add: Sscanf_d_def piece none Let_def skip digits parse n)
  next
    assume plus: "sign = ''+''"
    have skip: "SkipSpace (sp @ CHR ''+'' # ds @ rest) = Some (CHR ''+'' # ds @ rest)"
      by (intro SkipSpace_blank[OF sp]) (simp add: plus_no_space)
    have parse: "ParseInt (CHR ''+'' # ds) = Some (dec_value ds)"
      using assms(2) nonneg by (simp add: ParseInt_def n)
    have "ds \<noteq> []"
      by (simp add: c(1))
    then show ?thesis
      by (simp add: Sscanf_d_def piece plus Let_def skip digits parse n)
  qed
qed

text \<open>A piece that scans to a positive number has that number as its leading numeral.\<close>

lemma Sscanf_d_positive:
  assumes "Sscanf_d piece = Some n" and "0 < n"
  shows "leading_numeral piece n \<and> n < 2 ^ 63"
proof -
  from assms(1) obtain s where skip: "SkipSpace piece = Some s"
    by (auto simp: Sscanf_d_def split: option.splits)
  from SkipSpace_Some[OF skip] obtain sp where piece: "piece = sp @ s" and sp: "blank sp"
    by blast
  define sign where "sign = (if s \<noteq> [] \<and> (hd s = CHR ''+'' \<or> hd s = CHR ''-'') then [hd s] else [])"
  define ds where "ds = takeWhile is_digit (drop (length sign) s)"
  define rest where "rest = dropWhile is_digit (drop (length sign) s)"
  from assms(1) have ne: "ds \<noteq> []" and parse: "ParseInt (sign @ ds) = Some n"
    by (auto simp: Sscanf_d_def skip Let_def sign_def ds_def split: if_splits)
  have all: "list_all is_digit ds"
    unfolding ds_def list_all_iff by (auto dest: set_takeWhileD)
  then have nonneg: "0 \<le> dec_value ds"
    by (rule dec_value_nonneg)
  from ne all have decimal: "is_decimal ds"
    by (simp add: is_decimal_def)
  have s: "s = sign @ ds @ rest"
  proof -
    have "sign = take (length sign) s"
      by (cases s) (auto simp: sign_def)
    moreover have "drop (length sign) s = ds @ rest"
      by (simp add: ds_def rest_def)
    ultimately show ?thesis
      by (metis append_take_drop_id)
  qed
  have stop: "rest = [] \<or> \<not> is_digit (hd rest)"
    unfolding rest_def by (metis hd_dropWhile)
  from ne obtain c cs where c: "ds = c # cs"
    by (cases ds) auto
  with all have digit: "is_digit c"
    by simp
  have cases: "sign = [] \<or> sign = ''+'' \<or> sign = ''-''"
    by (auto simp: sign_def)
  have minus: "sign \<noteq> ''-''"
  proof
    assume "sign = ''-''"
    with parse have "n = - dec_value ds"
      by (auto simp: ParseInt_def Let_def split: if_splits)
    with nonneg assms(2) show False
      by simp
  qed
  have n: "n = dec_value ds \<and> n < 2 ^ 63"
  proof (cases "sign = []")
    case True
    with parse digit_not_special[OF digit] show ?thesis
      by (auto simp: ParseInt_def Let_def c split: if_splits)
  next
    case False
    with cases minus have "sign = ''+''"
      by simp
    with parse show ?thesis
      by (auto simp: ParseInt_def Let_def split: if_splits)
  qed
  from cases minus have sign: "sign = [] \<or> sign = ''+''"
    by simp
  from piece s have whole: "piece = sp @ sign @ ds @ rest"
    by simp
  from n have "n = dec_value ds"
    by simp
  with whole sp sign decimal stop have "leading_numeral piece n"
    unfolding leading_numeral_def by blast
  with n show ?thesis
    by simp
qed

lemma scanned_or_zero_numeral:
  "leading_numeral piece n \<Longrightarrow> n < 2 ^ 63 \<Longrightarrow> scanned_or_zero piece = n"
  by (simp add: scanned_or_zero_def Sscanf_d_leading_numeral)

lemma scanned_or_zero_positive:
  assumes "0 < scanned_or_zero piece"
  shows "leading_numeral piece (scanned_or_zero piece) \<and> scanned_or_zero piece < 2 ^ 63"
proof -
  from assms obtain n where "Sscanf_d piece = Some n" and "scanned_or_zero piece = n"
    by (auto simp: scanned_or_zero_def split: option.splits)
  with assms Sscanf_d_positive[of piece n] show ?thesis
    by simp
qed

subsection \<open>Pieces around one separator\<close>

lemma Split_pair: "sep \<notin> set a \<Longrightarrow> sep \<notin> set b \<Longrightarrow> Split (a @ sep # b) sep = [a, b]"
  by (simp add: Split_at_sep Split_no_sep)

lemma Split_two:
  assumes "length (Split s sep) = 2"
  shows "\<exists>a b. s = a @ sep # b \<and> sep \<notin> set a \<and> sep \<notin> set b"
proof -
  from assms have one: "count_list s sep = 1"
    by (simp add: length_Split)
  then have "sep \<in> set s"
    by (metis count_list_0_iff zero_neq_one)
  then obtain a b where s: "s = a @ sep # b" and a: "sep \<notin> set a"
    by (auto dest: split_list_first)
  from a have "count_list a sep = 0"
    by (simp add: count_list_0_iff)
  with one have "count_list b sep = 0"
    by (simp add: s)
  then have "sep \<notin> set b"
    by (simp add: count_list_0_iff)
  with s a show ?thesis
    by blast
qed

lemma Split_parts_iff: "2 \<le> length (Split s sep) \<longleftrightarrow> sep \<in> set s"
proof -
  have "count_list s sep = 0 \<longleftrightarrow> sep \<notin> set s"
    by (rule count_list_0_iff)
  then show ?thesis
    by (auto simp: length_Split)
qed

subsection \<open>\<^verbatim>\<open>GetImageInfo\<close>\<close>

lemma GetImageInfo_not_found:
  assumes "fst (s3_HeadObject lib \<lparr>HeadObjectInput.Bucket = BucketName cfg, Key = filename\<rparr> (s3 w)) = Some e"
  shows "fst (GetImageInfo lib cfg filename w) = Inl ImageNotFound"
proof -
  obtain err store where head:
    "s3_HeadObject lib \<lparr>HeadObjectInput.Bucket = BucketName cfg, Key = filename\<rparr> (s3 w) = (err, store)"
    by (meson surj_pair)
  with assms have "err = Some e" by simp
  then show ?thesis
    by (simp add: GetImageInfo_def GetFile_def head)
qed

lemma GetImageInfo_found:
  assumes "fst (s3_HeadObject lib \<lparr>HeadObjectInput.Bucket = BucketName cfg, Key = filename\<rparr> (s3 w)) = None"
  shows "fst (GetImageInfo lib cfg filename w) =
     (let imageURL = ''https://s3-url/'' @ filename;
          no_dimensions = \<lparr>ImageResult.Width = 0, Height = 0, URL = imageURL\<rparr>;
          parts = Split filename (CHR ''_'')
      in if 2 \<le> length parts then
           (let dimParts = Split (parts ! (length parts - 2)) (CHR ''x'')
            in if length dimParts = 2 then
                 (let width = scanned_or_zero (dimParts ! 0);
                      height = scanned_or_zero (dimParts ! 1)
                  in if 0 < width \<and> 0 < height
                     then Inr \<lparr>ImageResult.Width = width, Height = height, URL = imageURL\<rparr>
                     else Inr no_dimensions)
               else Inr no_dimensions)
         else Inr no_dimensions)"
proof -
  obtain err store where head:
    "s3_HeadObject lib \<lparr>HeadObjectInput.Bucket = BucketName cfg, Key = filename\<rparr> (s3 w) = (err, store)"
    by (meson surj_pair)
  with assms have "err = None" by simp
  then show ?thesis
    by (simp add: GetImageInfo_def GetFile_def head Let_def)
qed

text \<open>The only request is the existence check.\<close>

lemma GetImageInfo_world:
  "snd (GetImageInfo lib cfg filename w) =
     w\<lparr>s3 := snd (s3_HeadObject lib
                    \<lparr>HeadObjectInput.Bucket = BucketName cfg, Key = filename\<rparr> (s3 w)),
       requests := requests w @
                     [HeadObject \<lparr>HeadObjectInput.Bucket = BucketName cfg, Key = filename\<rparr>]\<rparr>"
proof -
  obtain err store where head:
    "s3_HeadObject lib \<lparr>HeadObjectInput.Bucket = BucketName cfg, Key = filename\<rparr> (s3 w) = (err, store)"
    by (meson surj_pair)
  show ?thesis
    by (cases err) (simp_all add: GetImageInfo_def GetFile_def head Let_def)
qed

lemma GetImageInfo_with_dimensions:
  assumes found: "fst (s3_HeadObject lib
                    \<lparr>HeadObjectInput.Bucket = BucketName cfg, Key = filename\<rparr> (s3 w)) = None"
    and dims: "name_dimensions filename W H"
  shows "fst (GetImageInfo lib cfg filename w) =
           Inr \<lparr>ImageResult.Width = W, Height = H, URL = ''https://s3-url/'' @ filename\<rparr>"
proof -
  from dims obtain pw ph where
    underscore: "CHR ''_'' \<in> set filename"
    and seg: "Split filename (CHR ''_'') ! (length (Split filename (CHR ''_'')) - 2)
                = pw @ ''x'' @ ph"
    and nox: "CHR ''x'' \<notin> set pw" "CHR ''x'' \<notin> set ph"
    and W: "leading_numeral pw W" "0 < W" "W < 2 ^ 63"
    and H: "leading_numeral ph H" "0 < H" "H < 2 ^ 63"
    unfolding name_dimensions_def by blast
  from underscore have parts: "2 \<le> length (Split filename (CHR ''_''))"
    by (simp only: Split_parts_iff)
  have pieces: "Split (pw @ CHR ''x'' # ph) (CHR ''x'') = [pw, ph]"
    by (rule Split_pair[OF nox])
  have width: "scanned_or_zero pw = W" and height: "scanned_or_zero ph = H"
    by (rule scanned_or_zero_numeral[OF W(1,3)], rule scanned_or_zero_numeral[OF H(1,3)])
  show ?thesis
    using parts W(2) H(2)
    by (simp add: GetImageInfo_found[OF found] Let_def seg pieces width height)
qed

lemma GetImageInfo_without_dimensions:
  assumes found: "fst (s3_HeadObject lib
                    \<lparr>HeadObjectInput.Bucket = BucketName cfg, Key = filename\<rparr> (s3 w)) = None"
    and none: "\<not> (\<exists>W H. name_dimensions filename W H)"
  shows "fst (GetImageInfo lib cfg filename w) =
           Inr \<lparr>ImageResult.Width = 0, Height = 0, URL = ''https://s3-url/'' @ filename\<rparr>"
proof -
  let ?parts = "Split filename (CHR ''_'')"
  let ?seg = "?parts ! (length ?parts - 2)"
  let ?dims = "Split ?seg (CHR ''x'')"
  have "\<not> (2 \<le> length ?parts \<and> length ?dims = 2 \<and>
            0 < scanned_or_zero (?dims ! 0) \<and> 0 < scanned_or_zero (?dims ! 1))"
  proof
    assume read: "2 \<le> length ?parts \<and> length ?dims = 2 \<and>
                  0 < scanned_or_zero (?dims ! 0) \<and> 0 < scanned_or_zero (?dims ! 1)"
    then have underscore: "CHR ''_'' \<in> set filename"
      by (simp only: Split_parts_iff)
    from read Split_two[of ?seg "CHR ''x''"] obtain pw ph where
      seg: "?seg = pw @ CHR ''x'' # ph" and nox: "CHR ''x'' \<notin> set pw" "CHR ''x'' \<notin> set ph"
      by blast
    have pieces: "?dims = [pw, ph]"
      by (simp only: seg Split_pair[OF nox])
    from read have "0 < scanned_or_zero pw" and "0 < scanned_or_zero ph"
      by (simp_all add: pieces)
    with scanned_or_zero_positive[of pw] scanned_or_zero_positive[of ph]
    have "leading_numeral pw (scanned_or_zero pw)" "scanned_or_zero pw < 2 ^ 63"
      and "leading_numeral ph (scanned_or_zero ph)" "scanned_or_zero ph < 2 ^ 63"
      and "0 < scanned_or_zero pw" "0 < scanned_or_zero ph"
      by blast+
    moreover have "?seg = pw @ ''x'' @ ph"
      by (simp add: seg)
    ultimately have "name_dimensions filename (scanned_or_zero pw) (scanned_or_zero ph)"
      unfolding name_dimensions_def
      using underscore nox by blast
    with none show False
      by blast
  qed
  then show ?thesis
    by (auto simp: GetImageInfo_found[OF found] Let_def)
qed

text \<open>
  C10 as stated fails in both directions. The segment \<^verbatim>\<open>12abx34\<close> does not have
  the form \<^verbatim>\<open><W>x<H>\<close>, and the result is 12 by 34, not 0 by 0: the scan stops at
  the first character that is not a digit and ignores the rest. Nor does the
  segment \<^verbatim>\<open>+12x 34\<close>, and the result is 12 by 34: the scan accepts a sign and
  skips leading space. The segment \<^verbatim>\<open>99999999999999999999x5\<close> has the form, with
  both numbers positive, and the result is 0 by 0: the width does not fit 64 bits,
  the scan fails and the variable keeps its 0.
\<close>

theorem GetImageInfo_scan_is_lenient:
  "Split ''pic_12abx34_1234567890.jpg'' (CHR ''_'') !
     (length (Split ''pic_12abx34_1234567890.jpg'' (CHR ''_'')) - 2) = ''12abx34'' \<and>
   \<not> spec_WxH_form ''12abx34'' \<and>
   fst (GetImageInfo (demo_lib []) demo_cfg ''pic_12abx34_1234567890.jpg''
          (world_with ''pic_12abx34_1234567890.jpg'')) =
     Inr \<lparr>ImageResult.Width = 12, Height = 34,
          URL = ''https://s3-url/pic_12abx34_1234567890.jpg''\<rparr> \<and>
   Split ''pic_+12x 34_1.jpg'' (CHR ''_'') !
     (length (Split ''pic_+12x 34_1.jpg'' (CHR ''_'')) - 2) = ''+12x 34'' \<and>
   \<not> spec_WxH_form ''+12x 34'' \<and>
   fst (GetImageInfo (demo_lib []) demo_cfg ''pic_+12x 34_1.jpg''
          (world_with ''pic_+12x 34_1.jpg'')) =
     Inr \<lparr>ImageResult.Width = 12, Height = 34, URL = ''https://s3-url/pic_+12x 34_1.jpg''\<rparr> \<and>
   spec_WxH_form ''99999999999999999999x5'' \<and>
   fst (GetImageInfo (demo_lib []) demo_cfg ''p_99999999999999999999x5_1.jpg''
          (world_with ''p_99999999999999999999x5_1.jpg'')) =
     Inr \<lparr>ImageResult.Width = 0, Height = 0,
          URL = ''https://s3-url/p_99999999999999999999x5_1.jpg''\<rparr>"
  by code_simp

text \<open>
  C10, amended. \<^verbatim>\<open>GetImageInfo\<close> sends the existence check and nothing else. When
  the check returns an error, so does \<^verbatim>\<open>GetImageInfo\<close>. Otherwise it returns a
  result with the URL \<^verbatim>\<open>https://s3-url/<filename>\<close>, and its width and height are
  \<open>W\<close> and \<open>H\<close> when the name carries the dimensions \<open>W\<close> and \<open>H\<close>, and both 0 when
  it carries none. The name carries dimensions when it has an underscore and its
  segment before the last underscore is two pieces around its only \<^verbatim>\<open>x\<close>, each
  of them space without a newline, then at most a plus sign, then a decimal
  numeral of a value from 1 to \<open>2\<^sup>6\<^sup>3 - 1\<close>, then any text that does not go on with
  a digit; \<open>W\<close> and \<open>H\<close> are the values of the two numerals. So a numeral that is 0
  or does not fit 64 bits, a minus sign, a piece without a numeral, and a segment
  with no \<^verbatim>\<open>x\<close> or several, all give 0 by 0.
\<close>

theorem GetImageInfo_reads_leading_numerals:
  "(\<forall>e. fst (s3_HeadObject lib
             \<lparr>HeadObjectInput.Bucket = BucketName cfg, Key = filename\<rparr> (s3 w)) = Some e \<longrightarrow>
        fst (GetImageInfo lib cfg filename w) = Inl ImageNotFound) \<and>
   (fst (s3_HeadObject lib
           \<lparr>HeadObjectInput.Bucket = BucketName cfg, Key = filename\<rparr> (s3 w)) = None \<longrightarrow>
      (\<forall>W H. name_dimensions filename W H \<longrightarrow>
         fst (GetImageInfo lib cfg filename w) =
           Inr \<lparr>ImageResult.Width = W, Height = H, URL = ''https://s3-url/'' @ filename\<rparr>) \<and>
      (\<not> (\<exists>W H. name_dimensions filename W H) \<longrightarrow>
         fst (GetImageInfo lib cfg filename w) =
           Inr \<lparr>ImageResult.Width = 0, Height = 0, URL = ''https://s3-url/'' @ filename\<rparr>)) \<and>
   snd (GetImageInfo lib cfg filename w) =
     w\<lparr>s3 := snd (s3_HeadObject lib
                    \<lparr>HeadObjectInput.Bucket = BucketName cfg, Key = filename\<rparr> (s3 w)),
       requests := requests w @
                     [HeadObject \<lparr>HeadObjectInput.Bucket = BucketName cfg, Key = filename\<rparr>]\<rparr>"
  using GetImageInfo_not_found[of lib cfg filename w]
    GetImageInfo_with_dimensions[of lib cfg filename w]
    GetImageInfo_without_dimensions[of lib cfg filename w]
    GetImageInfo_world[of lib cfg filename w]
  by (intro conjI allI impI) blast+

theorem GetImageInfo_reads_leading_numerals_witness:
  "name_dimensions ''pic_ 12abx+34_1234567890.jpg'' 12 34 \<and>
   fst (GetImageInfo (demo_lib []) demo_cfg ''pic_ 12abx+34_1234567890.jpg''
          (world_with ''pic_ 12abx+34_1234567890.jpg'')) =
     Inr \<lparr>ImageResult.Width = 12, Height = 34,
          URL = ''https://s3-url/pic_ 12abx+34_1234567890.jpg''\<rparr> \<and>
   \<not> (\<exists>W H. name_dimensions ''photo_1234567890.jpg'' W H) \<and>
   fst (GetImageInfo (demo_lib []) demo_cfg ''photo_1234567890.jpg''
          (world_with ''photo_1234567890.jpg'')) =
     Inr \<lparr>ImageResult.Width = 0, Height = 0, URL = ''https://s3-url/photo_1234567890.jpg''\<rparr> \<and>
   fst (GetImageInfo (demo_lib []) demo_cfg ''photo_800x600_1234567890.jpg'' empty_world) =
     Inl ImageNotFound"
proof -
  let ?k = "''pic_ 12abx+34_1234567890.jpg''"
  have head: "fst (s3_HeadObject (demo_lib [])
                \<lparr>HeadObjectInput.Bucket = BucketName demo_cfg, Key = ?k\<rparr>
                (s3 (world_with ?k))) = None"
    by code_simp
  have space: "blank '' ''"
    using blank_space[of "'' ''" "[]"] blank_Nil by (simp add: space_encodings_def)
  have width: "leading_numeral '' 12ab'' 12"
    unfolding leading_numeral_def
  proof (rule exI[of _ "'' ''"], rule exI[of _ "[]"], rule exI[of _ "''12''"],
      rule exI[of _ "''ab''"], intro conjI)
    show "blank '' ''" by (rule space)
    show "is_decimal ''12''" by code_simp
    show "''ab'' = [] \<or> \<not> is_digit (hd ''ab'')" by code_simp
    show "12 = dec_value ''12''" by code_simp
  qed simp_all
  have height: "leading_numeral ''+34'' 34"
    unfolding leading_numeral_def
  proof (rule exI[of _ "[]"], rule exI[of _ "''+''"], rule exI[of _ "''34''"],
      rule exI[of _ "[]"], intro conjI)
    show "blank []" by (rule blank_Nil)
    show "is_decimal ''34''" by code_simp
    show "34 = dec_value ''34''" by code_simp
  qed simp_all
  have segment: "Split ?k (CHR ''_'') ! (length (Split ?k (CHR ''_'')) - 2)
                   = '' 12ab'' @ ''x'' @ ''+34''"
    by code_simp
  have dims: "name_dimensions ?k 12 34"
    unfolding name_dimensions_def
  proof (intro conjI, simp, rule exI[of _ "'' 12ab''"], rule exI[of _ "''+34''"], intro conjI)
    show "Split ?k (CHR ''_'') ! (length (Split ?k (CHR ''_'')) - 2) = '' 12ab'' @ ''x'' @ ''+34''"
      by (rule segment)
    show "leading_numeral '' 12ab'' 12" by (rule width)
    show "leading_numeral ''+34'' 34" by (rule height)
  qed simp_all
  have lenient: "fst (GetImageInfo (demo_lib []) demo_cfg ?k (world_with ?k)) =
      Inr \<lparr>ImageResult.Width = 12, Height = 34, URL = ''https://s3-url/'' @ ?k\<rparr>"
    using GetImageInfo_reads_leading_numerals[of "demo_lib []" demo_cfg ?k "world_with ?k",
      THEN conjunct2, THEN conjunct1, THEN mp, OF head, THEN conjunct1, rule_format, OF dims] .
  let ?o = "''photo_1234567890.jpg''"
  have head_o: "fst (s3_HeadObject (demo_lib [])
                \<lparr>HeadObjectInput.Bucket = BucketName demo_cfg, Key = ?o\<rparr>
                (s3 (world_with ?o))) = None"
    by code_simp
  have segment_o: "Split ?o (CHR ''_'') ! (length (Split ?o (CHR ''_'')) - 2) = ''photo''"
    by code_simp
  have none: "\<not> (\<exists>W H. name_dimensions ?o W H)"
  proof
    assume "\<exists>W H. name_dimensions ?o W H"
    then obtain pw ph where "''photo'' = pw @ ''x'' @ ph"
      unfolding name_dimensions_def segment_o by blast
    then have "CHR ''x'' \<in> set ''photo''"
      by (metis append_Cons in_set_conv_decomp)
    then show False
      by simp
  qed
  have plain: "fst (GetImageInfo (demo_lib []) demo_cfg ?o (world_with ?o)) =
      Inr \<lparr>ImageResult.Width = 0, Height = 0, URL = ''https://s3-url/'' @ ?o\<rparr>"
    using GetImageInfo_reads_leading_numerals[of "demo_lib []" demo_cfg ?o "world_with ?o",
      THEN conjunct2, THEN conjunct1, THEN mp, OF head_o, THEN conjunct2, THEN mp, OF none] .
  let ?m = "''photo_800x600_1234567890.jpg''"
  have head_m: "fst (s3_HeadObject (demo_lib [])
                \<lparr>HeadObjectInput.Bucket = BucketName demo_cfg, Key = ?m\<rparr>
                (s3 empty_world)) = Some ''NotFound''"
    by code_simp
  have missing: "fst (GetImageInfo (demo_lib []) demo_cfg ?m empty_world) = Inl ImageNotFound"
    using GetImageInfo_reads_leading_numerals[of "demo_lib []" demo_cfg ?m empty_world,
      THEN conjunct1, rule_format, OF head_m] .
  from dims lenient none plain missing show ?thesis by simp
qed

end
